theory Spec2Isabelle
  imports Complex_Main "HOL-Library.Sublist"
begin

section \<open>JavaScript strings and number rendering\<close>

text \<open>
  A JavaScript string is modelled as a \<open>string\<close> (a list of bytes, the UTF-8 encoding of
  the text). All tokens the code searches for are ASCII, so matching on bytes and matching
  on UTF-16 code units find the same occurrences.
\<close>

definition digit_char :: "nat \<Rightarrow> char" where
  "digit_char d = ''0123456789'' ! (d mod 10)"

text \<open>\<open>Number.prototype.toString()\<close> on a non-negative integer: its decimal digits.\<close>

fun nat_toString :: "nat \<Rightarrow> string" where
  "nat_toString n =
     (if n < 10 then [digit_char n] else nat_toString (n div 10) @ [digit_char (n mod 10)])"

definition int_toString :: "int \<Rightarrow> string" where
  "int_toString i =
     (if i < 0 then CHR ''-'' # nat_toString (nat (- i)) else nat_toString (nat i))"

text \<open>\<open>s.padStart(n, c)\<close> for a one-character pad string.\<close>

definition padStart :: "nat \<Rightarrow> char \<Rightarrow> string \<Rightarrow> string" where
  "padStart n c s = replicate (n - length s) c @ s"

text \<open>\<open>s.includes(t)\<close>: \<open>t\<close> occurs in \<open>s\<close> as a contiguous run.\<close>

definition str_includes :: "string \<Rightarrow> string \<Rightarrow> bool" where
  "str_includes s t = sublist t s"

subsection \<open>\<open>String.prototype.replace\<close> with a global literal pattern\<close>

text \<open>
  The replacement text of \<open>replace\<close> is a template: \<open>$$\<close> stands for a dollar sign,
  \<open>$&\<close> for the matched text, \<open>$`\<close> for the part of the input before the match and
  \<open>$'\<close> for the part after it. The patterns of this program have no capture group, so
  \<open>$1\<close> ... \<open>$99\<close> and \<open>$<\<close> stay as they are written.
\<close>

fun getSubstitution :: "string \<Rightarrow> string \<Rightarrow> string \<Rightarrow> string \<Rightarrow> string" where
  "getSubstitution matched left right [] = []"
| "getSubstitution matched left right [c] = [c]"
| "getSubstitution matched left right (c # d # t) =
     (if c = CHR ''$'' \<and> d = CHR ''$'' then CHR ''$'' # getSubstitution matched left right t
      else if c = CHR ''$'' \<and> d = CHR ''&'' then matched @ getSubstitution matched left right t
      else if c = CHR ''$'' \<and> d = CHR 0x60 then left @ getSubstitution matched left right t
      else if c = CHR ''$'' \<and> d = CHR 0x27 then right @ getSubstitution matched left right t
      else c # getSubstitution matched left right (d # t))"

text \<open>
  \<open>input.replace(/tok/g, rep)\<close> for a literal, non-empty \<open>tok\<close>: the input is scanned from
  the left, every occurrence found is replaced, the scan goes on after the occurrence (the
  inserted text is not scanned again). \<open>seen\<close> is the part of the input left of the cursor.
\<close>

function replaceFrom :: "string \<Rightarrow> string \<Rightarrow> string \<Rightarrow> string \<Rightarrow> string" where
  "replaceFrom tok rep seen [] = []"
| "replaceFrom tok rep seen (c # cs) =
     (if tok \<noteq> [] \<and> prefix tok (c # cs)
      then getSubstitution tok seen (drop (length tok) (c # cs)) rep
           @ replaceFrom tok rep (seen @ tok) (drop (length tok) (c # cs))
      else c # replaceFrom tok rep (seen @ [c]) cs)"
  by pat_completeness auto
termination
  by (relation "measure (\<lambda>(tok, rep, seen, s). length s)") (auto simp: prefix_def)

definition replaceAll :: "string \<Rightarrow> string \<Rightarrow> string \<Rightarrow> string" where
  "replaceAll tok rep s = replaceFrom tok rep [] s"

section \<open>Macro replacement (utils/macros)\<close>

text \<open>
  \<open>MacroContext\<close>: every field is optional. The play heads are JavaScript numbers holding
  seconds; they are modelled as exact rationals (the rounding of IEEE doubles is not
  modelled).
\<close>

record MacroContext =
  assetUri :: "string option"
  contentPlayhead :: "rat option"
  adPlayhead :: "rat option"
  errorCode :: "int option"
  breakPosition :: "int option"
  adType :: "string option"

definition emptyContext :: MacroContext where
  "emptyContext = \<lparr> assetUri = None, contentPlayhead = None, adPlayhead = None,
     errorCode = None, breakPosition = None, adType = None \<rparr>"

text \<open>
  The two values \<open>replaceMacros\<close> reads from its surroundings at each call:
  \<open>Date.now()\<close> and \<open>Math.random().toString(36).substring(2, 15)\<close>.
\<close>

record macro_env =
  now :: nat
  cachebuster :: string

definition hex_char :: "nat \<Rightarrow> char" where
  "hex_char d = ''0123456789ABCDEF'' ! (d mod 16)"

definition uri_unreserved :: "char \<Rightarrow> bool" where
  "uri_unreserved c \<longleftrightarrow>
     c \<in> set ''ABCDEFGHIJKLMNOPQRSTUVWXYZabcdefghijklmnopqrstuvwxyz0123456789-_.!~*()''
     \<or> c = CHR 0x27"

text \<open>\<open>encodeURIComponent\<close> on the UTF-8 bytes of a well-formed string.\<close>

definition encodeURIComponent :: "string \<Rightarrow> string" where
  "encodeURIComponent s =
     concat (map (\<lambda>c. if uri_unreserved c then [c]
                       else [CHR ''%'', hex_char (of_char c div 16), hex_char (of_char c mod 16)]) s)"

text \<open>JavaScript's \<open>%\<close> on numbers: the remainder has the sign of the dividend.\<close>

definition js_rem :: "rat \<Rightarrow> rat \<Rightarrow> rat" where
  "js_rem a b = a - b * of_int (if a / b < 0 then - \<lfloor>- (a / b)\<rfloor> else \<lfloor>a / b\<rfloor>)"

definition formatPlayhead :: "rat \<Rightarrow> string" where
  "formatPlayhead seconds =
     (let hours = \<lfloor>seconds / 3600\<rfloor>;
          minutes = \<lfloor>js_rem seconds 3600 / 60\<rfloor>;
          secs = \<lfloor>js_rem seconds 60\<rfloor>;
          ms = \<lfloor>js_rem seconds 1 * 1000\<rfloor>
      in padStart 2 CHR ''0'' (int_toString hours) @ '':''
         @ padStart 2 CHR ''0'' (int_toString minutes) @ '':''
         @ padStart 2 CHR ''0'' (int_toString secs) @ ''.''
         @ padStart 3 CHR ''0'' (int_toString ms))"

definition replaceMacros :: "macro_env \<Rightarrow> string \<Rightarrow> MacroContext \<Rightarrow> string" where
  "replaceMacros env url context =
     (let result = url;
          result = replaceAll ''[TIMESTAMP]'' (nat_toString (now env)) result;
          result = replaceAll ''[CACHEBUSTING]'' (cachebuster env) result;
          result = (case assetUri context of
                      Some a \<Rightarrow> if a \<noteq> [] then replaceAll ''[ASSETURI]'' (encodeURIComponent a) result
                                else result
                    | None \<Rightarrow> result);
          result = (case contentPlayhead context of
                      Some p \<Rightarrow> replaceAll ''[CONTENTPLAYHEAD]'' (formatPlayhead p) result
                    | None \<Rightarrow> result);
          result = (case adPlayhead context of
                      Some p \<Rightarrow> replaceAll ''[ADPLAYHEAD]'' (formatPlayhead p) result
                    | None \<Rightarrow> result);
          result = (case errorCode context of
                      Some e \<Rightarrow> replaceAll ''[ERRORCODE]'' (int_toString e) result
                    | None \<Rightarrow> result);
          result = (case breakPosition context of
                      Some b \<Rightarrow> replaceAll ''[BREAKPOSITION]'' (int_toString b) result
                    | None \<Rightarrow> result);
          result = (case adType context of
                      Some t \<Rightarrow> if t \<noteq> [] then replaceAll ''[ADTYPE]'' t result else result
                    | None \<Rightarrow> result)
      in result)"

text \<open>
  A macro token is a name between square brackets, the name holding no bracket.
\<close>

definition macro_name :: "string \<Rightarrow> bool" where
  "macro_name n \<longleftrightarrow> CHR ''['' \<notin> set n \<and> CHR '']'' \<notin> set n"

definition macro_token :: "string \<Rightarrow> bool" where
  "macro_token t \<longleftrightarrow>
     (case t of [] \<Rightarrow> False
      | c # r \<Rightarrow> c = CHR ''['' \<and> r \<noteq> [] \<and> last r = CHR '']'' \<and> macro_name (butlast r))"

text \<open>The number of positions of a string at which a token occurs.\<close>

fun occurrences :: "string \<Rightarrow> string \<Rightarrow> nat" where
  "occurrences tok [] = 0"
| "occurrences tok (c # cs) = (if prefix tok (c # cs) then 1 else 0) + occurrences tok cs"

section \<open>JavaScript numbers and number parsing\<close>

text \<open>
  A JavaScript number is \<open>NaN\<close>, an infinity or a finite value. Finite values are modelled
  as exact rationals: the rounding of IEEE doubles is not modelled, so the model and the
  program agree wherever every intermediate value is a double (as for the time codes and
  percentages of a VAST document).
\<close>

datatype jsnum = NaN | PosInfinity | NegInfinity | Finite rat

text \<open>What \<open>typeof\<close> tells \<open>parseDuration\<close> about its argument.\<close>

datatype jsvalue = JNumber jsnum | JString string | JOther

definition is_digit :: "char \<Rightarrow> bool" where
  "is_digit c \<longleftrightarrow> c \<in> set ''0123456789''"

definition is_space :: "char \<Rightarrow> bool" where
  "is_space c \<longleftrightarrow> c \<in> {CHR 0x09, CHR 0x0A, CHR 0x0B, CHR 0x0C, CHR 0x0D, CHR 0x20}"

definition digit_value :: "char \<Rightarrow> nat" where
  "digit_value c = of_char c - 48"

definition digits_value :: "string \<Rightarrow> nat" where
  "digits_value ds = foldl (\<lambda>acc c. 10 * acc + digit_value c) 0 ds"

definition pow10 :: "int \<Rightarrow> rat" where
  "pow10 e = (if 0 \<le> e then 10 ^ nat e else 1 / 10 ^ nat (- e))"

text \<open>
  The exponent part of a decimal literal: \<open>e\<close> or \<open>E\<close>, an optional sign and at least
  one digit. Anything else is no exponent part (and is ignored, like all trailing text).
\<close>

definition exponent_part :: "string \<Rightarrow> int" where
  "exponent_part s =
     (case s of
        [] \<Rightarrow> 0
      | c # r \<Rightarrow>
          if c = CHR ''e'' \<or> c = CHR ''E'' then
            (case r of
               [] \<Rightarrow> 0
             | d # r' \<Rightarrow>
                 if d = CHR ''-'' then
                   (if takeWhile is_digit r' = [] then 0
                    else - int (digits_value (takeWhile is_digit r')))
                 else if d = CHR ''+'' then int (digits_value (takeWhile is_digit r'))
                 else int (digits_value (takeWhile is_digit r)))
          else 0)"

text \<open>
  \<open>parseFloat\<close>: leading white space is skipped, then the longest prefix that is a decimal
  literal (optional sign; \<open>Infinity\<close>, or digits with an optional fraction and exponent) is
  read; without such a prefix the result is \<open>NaN\<close>. White space is the ASCII white space.
\<close>

definition parseFloat :: "string \<Rightarrow> jsnum" where
  "parseFloat s =
     (let t = dropWhile is_space s;
          neg = (case t of [] \<Rightarrow> False | c # _ \<Rightarrow> c = CHR ''-'');
          t1 = (case t of [] \<Rightarrow> [] | c # r \<Rightarrow> if c = CHR ''-'' \<or> c = CHR ''+'' then r else t)
      in if prefix ''Infinity'' t1 then (if neg then NegInfinity else PosInfinity)
         else
           let ip = takeWhile is_digit t1;
               r1 = dropWhile is_digit t1;
               fp = (case r1 of [] \<Rightarrow> [] | c # r \<Rightarrow> if c = CHR ''.'' then takeWhile is_digit r else []);
               r2 = (case r1 of [] \<Rightarrow> [] | c # r \<Rightarrow> if c = CHR ''.'' then dropWhile is_digit r else r1)
           in if ip = [] \<and> fp = [] then NaN
              else
                let mantissa = of_nat (digits_value ip) + of_nat (digits_value fp) / 10 ^ length fp;
                    v = mantissa * pow10 (exponent_part r2)
                in Finite (if neg then - v else v))"

text \<open>\<open>parseInt(s, 10)\<close>: white space, an optional sign, then the leading digits.\<close>

definition parseInt :: "string \<Rightarrow> jsnum" where
  "parseInt s =
     (let t = dropWhile is_space s;
          neg = (case t of [] \<Rightarrow> False | c # _ \<Rightarrow> c = CHR ''-'');
          t1 = (case t of [] \<Rightarrow> [] | c # r \<Rightarrow> if c = CHR ''-'' \<or> c = CHR ''+'' then r else t);
          ds = takeWhile is_digit t1
      in if ds = [] then NaN
         else Finite (if neg then - of_nat (digits_value ds) else of_nat (digits_value ds)))"

fun js_add :: "jsnum \<Rightarrow> jsnum \<Rightarrow> jsnum" where
  "js_add (Finite a) (Finite b) = Finite (a + b)"
| "js_add NaN _ = NaN"
| "js_add _ NaN = NaN"
| "js_add PosInfinity NegInfinity = NaN"
| "js_add NegInfinity PosInfinity = NaN"
| "js_add PosInfinity _ = PosInfinity"
| "js_add _ PosInfinity = PosInfinity"
| "js_add NegInfinity _ = NegInfinity"
| "js_add _ NegInfinity = NegInfinity"

text \<open>Multiplication and division by a positive finite constant.\<close>

fun js_scale :: "jsnum \<Rightarrow> rat \<Rightarrow> jsnum" where
  "js_scale (Finite a) k = Finite (a * k)"
| "js_scale n k = n"

text \<open>\<open>x || 0\<close> on a number: \<open>NaN\<close> and zero are falsy.\<close>

fun js_or_zero :: "jsnum \<Rightarrow> jsnum" where
  "js_or_zero NaN = Finite 0"
| "js_or_zero n = n"

text \<open>
  The regular expression \<open>/(\d+):(\d+):(\d+(?:\.\d+)?)/\<close> tried at the start of a string.
  Every \<open>\d+\<close> is greedy and is followed by a character that is no digit, so giving back
  digits never turns a failed attempt into a match: the attempt is decided by the maximal
  digit runs.
\<close>

definition match_here :: "string \<Rightarrow> (string \<times> string \<times> string) option" where
  "match_here s =
     (let hours = takeWhile is_digit s; r = dropWhile is_digit s in
      if hours = [] then None else
      case r of
        [] \<Rightarrow> None
      | c # r1 \<Rightarrow>
          if c \<noteq> CHR '':'' then None else
          let minutes = takeWhile is_digit r1; r2 = dropWhile is_digit r1 in
          if minutes = [] then None else
          case r2 of
            [] \<Rightarrow> None
          | c2 # r3 \<Rightarrow>
              if c2 \<noteq> CHR '':'' then None else
              let secs = takeWhile is_digit r3; r4 = dropWhile is_digit r3 in
              if secs = [] then None else
              case r4 of
                [] \<Rightarrow> Some (hours, minutes, secs)
              | c4 # r5 \<Rightarrow>
                  if c4 = CHR ''.'' \<and> takeWhile is_digit r5 \<noteq> []
                  then Some (hours, minutes, secs @ ''.'' @ takeWhile is_digit r5)
                  else Some (hours, minutes, secs))"

text \<open>\<open>duration.match(re)\<close>: the leftmost position where the expression matches.\<close>

fun time_match :: "string \<Rightarrow> (string \<times> string \<times> string) option" where
  "time_match [] = None"
| "time_match (c # cs) =
     (case match_here (c # cs) of Some g \<Rightarrow> Some g | None \<Rightarrow> time_match cs)"


section \<open>VAST types (types/vast)\<close>

text \<open>Error codes per the VAST specification, with the numbers of the enum.\<close>

datatype VASTErrorCode =
    XML_PARSING_ERROR
  | VAST_SCHEMA_VALIDATION_ERROR
  | VAST_VERSION_NOT_SUPPORTED
  | GENERAL_WRAPPER_ERROR
  | WRAPPER_TIMEOUT
  | WRAPPER_LIMIT_REACHED
  | NO_VAST_RESPONSE
  | GENERAL_LINEAR_ERROR
  | FILE_NOT_FOUND
  | MEDIA_TIMEOUT
  | MEDIA_NOT_SUPPORTED
  | GENERAL_COMPANION_ERROR
  | UNDEFINED_ERROR

fun errorCodeNumber :: "VASTErrorCode \<Rightarrow> int" where
  "errorCodeNumber XML_PARSING_ERROR = 100"
| "errorCodeNumber VAST_SCHEMA_VALIDATION_ERROR = 101"
| "errorCodeNumber VAST_VERSION_NOT_SUPPORTED = 102"
| "errorCodeNumber GENERAL_WRAPPER_ERROR = 300"
| "errorCodeNumber WRAPPER_TIMEOUT = 301"
| "errorCodeNumber WRAPPER_LIMIT_REACHED = 302"
| "errorCodeNumber NO_VAST_RESPONSE = 303"
| "errorCodeNumber GENERAL_LINEAR_ERROR = 400"
| "errorCodeNumber FILE_NOT_FOUND = 401"
| "errorCodeNumber MEDIA_TIMEOUT = 402"
| "errorCodeNumber MEDIA_NOT_SUPPORTED = 403"
| "errorCodeNumber GENERAL_COMPANION_ERROR = 600"
| "errorCodeNumber UNDEFINED_ERROR = 900"

text \<open>
  The interfaces of \<open>types/vast\<close>, with the fields the parser fills. An optional field is
  an \<open>option\<close>. \<open>TrackingEventType\<close> is a string at run time: the parser stores the
  \<open>event\<close> attribute as it is written. Field names that several interfaces share are
  qualified by the record's name (\<open>MediaFile.url\<close>, \<open>Impression.url\<close>).
  A bit rate the parser cannot read (\<open>NaN\<close>) behaves like an absent one wherever it is used
  (\<open>bitrate || 0\<close>), so both are \<open>None\<close>.
\<close>

record TrackingEvent =
  event :: string
  url :: string
  offset :: "jsnum option"

record MediaFile =
  id :: "string option"
  url :: string
  delivery :: string
  type :: string
  width :: int
  height :: int
  bitrate :: "int option"
  codec :: "string option"

record ClickThrough =
  id :: "string option"
  url :: string

record VideoClicks =
  clickThrough :: "ClickThrough option"

record Linear =
  duration :: jsnum
  skipOffset :: "jsnum option"
  mediaFiles :: "MediaFile list"
  trackingEvents :: "TrackingEvent list"
  videoClicks :: "VideoClicks option"
  adParameters :: "string option"

record Creative =
  id :: "string option"
  sequence :: "int option"
  adId :: "string option"
  linear :: "Linear option"

record Impression =
  id :: "string option"
  url :: string

record Wrapper =
  vastAdTagURI :: string
  followAdditionalWrappers :: "bool option"
  allowMultipleAds :: "bool option"
  fallbackOnNoAd :: "bool option"

record InLine =
  adTitle :: string
  description :: "string option"
  advertiser :: "string option"
  creatives :: "Creative list"

record AdSystem =
  name :: string
  version :: "string option"

record Ad =
  id :: string
  sequence :: "int option"
  adSystem :: "AdSystem option"
  adTitle :: "string option"
  impressions :: "Impression list"
  creatives :: "Creative list"
  errors :: "string list"
  wrapper :: "Wrapper option"
  inLine :: "InLine option"

record VASTResponse =
  version :: string
  ads :: "Ad list"
  errors :: "string list"


section \<open>The VAST parser (core/VASTParser)\<close>

subsection \<open>Durations\<close>

fun parseDuration :: "jsvalue \<Rightarrow> jsnum" where
  "parseDuration (JNumber n) = n"
| "parseDuration JOther = Finite 0"
| "parseDuration (JString dur) =
     (if suffix ''%'' dur then js_scale (parseFloat dur) (1 / 100)
      else
        case time_match dur of
          Some (hours, minutes, seconds) \<Rightarrow>
            js_add (js_add (js_scale (parseInt hours) 3600) (js_scale (parseInt minutes) 60))
                   (parseFloat seconds)
        | None \<Rightarrow> js_or_zero (parseFloat dur))"

subsection \<open>Media file selection\<close>

text \<open>
  Bit rates, heights and the target are JavaScript numbers; the parser produces integers
  (\<open>parseInt\<close>), and they are modelled as \<open>int\<close>.
\<close>

definition isMp4 :: "MediaFile \<Rightarrow> bool" where
  "isMp4 mf \<longleftrightarrow> str_includes (type mf) ''mp4'' \<or> str_includes (type mf) ''video/mp4''"

definition candidates :: "MediaFile list \<Rightarrow> MediaFile list" where
  "candidates files =
     (let mp4Files = filter isMp4 files
      in if length mp4Files > 0 then mp4Files else files)"

text \<open>The sort key of the comparator: \<open>aDiff\<close>, with the penalty for heights above 1080.\<close>

definition diff :: "int \<Rightarrow> MediaFile \<Rightarrow> int" where
  "diff targetBitrate a =
     (let aBitrate = (case bitrate a of Some b \<Rightarrow> b | None \<Rightarrow> 0);
          aPenalty = (if height a > 1080 then 10000 else 0)
      in \<bar>aBitrate - targetBitrate\<bar> + aPenalty)"

text \<open>
  \<open>Array.prototype.sort\<close> with the comparator \<open>aDiff - bDiff\<close> is a stable sort by
  \<open>diff\<close>, which is what \<open>sort_key\<close> is. \<open>sorted[0] || null\<close> is the head, if any.
\<close>

definition selectBestMediaFile :: "MediaFile list \<Rightarrow> int \<Rightarrow> MediaFile option" where
  "selectBestMediaFile files targetBitrate =
     (if length files = 0 then None
      else
        case sort_key (diff targetBitrate) (candidates files) of
          [] \<Rightarrow> None
        | best # _ \<Rightarrow> Some best)"

subsection \<open>Wrapper resolution\<close>

record VASTParserConfig =
  maxWrapperDepth :: nat
  timeout :: nat
  debug :: bool

text \<open>A thrown value: an \<open>Error\<close> with its message, or something that is no \<open>Error\<close>.\<close>

datatype thrown = JsError string | NonError

record ParseError =
  code :: VASTErrorCode
  message :: string

record ParseResult =
  success :: bool
  response :: "VASTResponse option"
  error :: "ParseError option"

text \<open>
  What the XML library makes of a response body, as \<open>parseXml\<close> sees it: the library
  throws, or the parsed object has no \<open>VAST\<close> member, or it has one, which \<open>parseXml\<close>
  turns into a \<open>VASTResponse\<close> (the document).
\<close>

datatype xml_body = XmlThrows thrown | NoVast | Vast VASTResponse

text \<open>
  What the injected \<open>fetchFn\<close> does for a URL: the promise rejects (a network error, or
  the abort when the timeout fires), or it resolves to a response with its \<open>ok\<close> flag,
  status and status text. The transport is a function of the URL: a URL fetched twice
  answers the same.
\<close>

datatype fetched = Rejects thrown | Resolves bool nat string xml_body

type_synonym transport = "string \<Rightarrow> fetched"

definition fetchWithTimeout :: "transport \<Rightarrow> string \<Rightarrow> thrown + xml_body" where
  "fetchWithTimeout fetchFn u =
     (case fetchFn u of
        Rejects e \<Rightarrow> Inl e
      | Resolves ok status statusText body \<Rightarrow>
          if \<not> ok then Inl (JsError (''HTTP '' @ nat_toString status @ '': '' @ statusText))
          else Inr body)"

definition parseXml :: "xml_body \<Rightarrow> thrown + VASTResponse" where
  "parseXml xml =
     (case xml of
        XmlThrows e \<Rightarrow> Inl e
      | NoVast \<Rightarrow> Inl (JsError ''Invalid VAST: missing VAST element'')
      | Vast doc \<Rightarrow> Inr doc)"

definition getWrapperTrackingEvents :: "Ad \<Rightarrow> TrackingEvent list" where
  "getWrapperTrackingEvents wrapperAd =
     concat (map (\<lambda>creative. case linear creative of
                                 Some l \<Rightarrow> trackingEvents l
                               | None \<Rightarrow> [])
                 (Ad.creatives wrapperAd))"

definition mergeCreative :: "Ad \<Rightarrow> Creative \<Rightarrow> Creative" where
  "mergeCreative wrapperAd creative =
     creative\<lparr> linear :=
       (case linear creative of
          Some l \<Rightarrow> Some (l\<lparr> trackingEvents :=
                              getWrapperTrackingEvents wrapperAd @ trackingEvents l \<rparr>)
        | None \<Rightarrow> None) \<rparr>"

definition mergeWrapperTracking :: "Ad \<Rightarrow> Ad \<Rightarrow> Ad" where
  "mergeWrapperTracking wrapperAd nested =
     nested\<lparr> impressions := impressions wrapperAd @ impressions nested,
             Ad.errors := Ad.errors wrapperAd @ Ad.errors nested,
             Ad.creatives := map (mergeCreative wrapperAd) (Ad.creatives nested) \<rparr>"

text \<open>
  \<open>ad.wrapper?.vastAdTagURI\<close> is truthy: the ad is a wrapper with a non-empty URI (a
  wrapper element without a \<open>VASTAdTagURI\<close> has the empty URI here). Likewise
  \<open>fallbackOnNoAd\<close> is truthy when the attribute is \<open>true\<close>.
\<close>

definition hasAdTagURI :: "Ad \<Rightarrow> bool" where
  "hasAdTagURI ad \<longleftrightarrow> (case wrapper ad of Some w \<Rightarrow> vastAdTagURI w \<noteq> [] | None \<Rightarrow> False)"

definition limitExceeded :: "VASTParserConfig \<Rightarrow> thrown" where
  "limitExceeded config =
     JsError (''Wrapper limit exceeded (max: '' @ nat_toString (maxWrapperDepth config) @ '')'')"

text \<open>
  \<open>fetchAndParse\<close> and \<open>resolveWrapper\<close> call each other; \<open>resolveAds\<close> is the
  \<open>Promise.all\<close> over \<open>parsed.ads.map\<close>, giving one list of ads per ad of the document
  (\<open>flat()\<close> is \<open>concat\<close>). The sibling resolutions of a document run concurrently; when
  several fail, the program reports the one that fails first in time, the model the first
  in document order. Whether the whole resolution fails does not depend on that choice.
\<close>

function fetchAndParse :: "VASTParserConfig \<Rightarrow> transport \<Rightarrow> string \<Rightarrow> nat \<Rightarrow> thrown + VASTResponse"
  and resolveAds :: "VASTParserConfig \<Rightarrow> transport \<Rightarrow> Ad list \<Rightarrow> nat \<Rightarrow> thrown + Ad list list"
  and resolveWrapper :: "VASTParserConfig \<Rightarrow> transport \<Rightarrow> Ad \<Rightarrow> nat \<Rightarrow> thrown + Ad list"
where
  "fetchAndParse config fetchFn u depth =
     (if depth \<ge> maxWrapperDepth config then Inl (limitExceeded config)
      else
        case fetchWithTimeout fetchFn u of
          Inl e \<Rightarrow> Inl e
        | Inr xml \<Rightarrow>
            (case parseXml xml of
               Inl e \<Rightarrow> Inl e
             | Inr parsed \<Rightarrow>
                 (case resolveAds config fetchFn (ads parsed) depth of
                    Inl e \<Rightarrow> Inl e
                  | Inr resolvedAds \<Rightarrow> Inr (parsed\<lparr> ads := concat resolvedAds \<rparr>))))"
| "resolveAds config fetchFn [] depth = Inr []"
| "resolveAds config fetchFn (ad # rest) depth =
     (case (if hasAdTagURI ad then resolveWrapper config fetchFn ad (depth + 1) else Inr [ad]) of
        Inl e \<Rightarrow> Inl e
      | Inr resolved \<Rightarrow>
          (case resolveAds config fetchFn rest depth of
             Inl e \<Rightarrow> Inl e
           | Inr others \<Rightarrow> Inr (resolved # others)))"
| "resolveWrapper config fetchFn wrapperAd depth =
     (case wrapper wrapperAd of
        None \<Rightarrow> Inr [wrapperAd]
      | Some w \<Rightarrow>
          if vastAdTagURI w = [] then Inr [wrapperAd]
          else
            case fetchAndParse config fetchFn (vastAdTagURI w) depth of
              Inr nestedResponse \<Rightarrow>
                Inr (map (mergeWrapperTracking wrapperAd) (ads nestedResponse))
            | Inl e \<Rightarrow> if fallbackOnNoAd w = Some True then Inr [] else Inl e)"
  by pat_completeness auto
termination
  by (relation "measures
        [\<lambda>x. case x of
                Inl (config, fetchFn, u, depth) \<Rightarrow> 3 * (maxWrapperDepth config - depth)
              | Inr (Inl (config, fetchFn, as, depth)) \<Rightarrow> 3 * (maxWrapperDepth config - (depth + 1)) + 2
              | Inr (Inr (config, fetchFn, ad, depth)) \<Rightarrow> 3 * (maxWrapperDepth config - depth) + 1,
         \<lambda>x. case x of
                Inl (config, fetchFn, u, depth) \<Rightarrow> 0
              | Inr (Inl (config, fetchFn, as, depth)) \<Rightarrow> length as
              | Inr (Inr (config, fetchFn, ad, depth)) \<Rightarrow> 0]")
     auto

text \<open>The public operation: every thrown value becomes a failure result.\<close>

definition parse :: "VASTParserConfig \<Rightarrow> transport \<Rightarrow> string \<Rightarrow> ParseResult" where
  "parse config fetchFn vastUrl =
     (case fetchAndParse config fetchFn vastUrl 0 of
        Inr r \<Rightarrow> \<lparr> success = True, response = Some r, error = None \<rparr>
      | Inl e \<Rightarrow>
          \<lparr> success = False, response = None,
            error = Some \<lparr> code = GENERAL_WRAPPER_ERROR,
                           message = (case e of JsError m \<Rightarrow> m | NonError \<Rightarrow> ''Unknown error'') \<rparr> \<rparr>)"

text \<open>The failure result that \<open>parse\<close> builds for a message.\<close>

definition failure :: "string \<Rightarrow> ParseResult" where
  "failure m = \<lparr> success = False, response = None,
                 error = Some \<lparr> code = GENERAL_WRAPPER_ERROR, message = m \<rparr> \<rparr>"

definition aggregateTrackingEvents :: "Ad list \<Rightarrow> TrackingEvent list" where
  "aggregateTrackingEvents as =
     concat (map (\<lambda>ad. concat (map (\<lambda>creative. case linear creative of
                                                   Some l \<Rightarrow> trackingEvents l
                                                 | None \<Rightarrow> [])
                                   (Ad.creatives ad))) as)"

definition aggregateImpressions :: "Ad list \<Rightarrow> string list" where
  "aggregateImpressions as = concat (map (\<lambda>ad. map Impression.url (impressions ad)) as)"

subsection \<open>Wrapper chains\<close>

text \<open>
  A chain of \<open>n\<close> nested wrappers starting at a URL: the URL answers with a document
  whose only ad is a wrapper pointing to a chain of \<open>n - 1\<close> wrappers; a chain of no
  wrapper is a URL that answers with a document without wrapper ads.
\<close>

fun wrapperChain :: "transport \<Rightarrow> string \<Rightarrow> nat \<Rightarrow> bool" where
  "wrapperChain fetchFn u 0 =
     (case fetchFn u of
        Resolves ok _ _ (Vast doc) \<Rightarrow> ok \<and> list_all (\<lambda>ad. \<not> hasAdTagURI ad) (ads doc)
      | _ \<Rightarrow> False)"
| "wrapperChain fetchFn u (Suc n) =
     (case fetchFn u of
        Resolves ok _ _ (Vast doc) \<Rightarrow>
          ok \<and> (case ads doc of
                  [ad] \<Rightarrow> (case wrapper ad of
                             Some w \<Rightarrow> vastAdTagURI w \<noteq> [] \<and> wrapperChain fetchFn (vastAdTagURI w) n
                           | None \<Rightarrow> False)
                | _ \<Rightarrow> False)
      | _ \<Rightarrow> False)"

text \<open>No wrapper of the chain sets \<open>fallbackOnNoAd\<close>.\<close>

fun withoutFallback :: "transport \<Rightarrow> string \<Rightarrow> nat \<Rightarrow> bool" where
  "withoutFallback fetchFn u 0 = True"
| "withoutFallback fetchFn u (Suc n) =
     (case fetchFn u of
        Resolves ok _ _ (Vast doc) \<Rightarrow>
          (case ads doc of
             [ad] \<Rightarrow> (case wrapper ad of
                        Some w \<Rightarrow> fallbackOnNoAd w \<noteq> Some True
                                  \<and> withoutFallback fetchFn (vastAdTagURI w) n
                      | None \<Rightarrow> True)
           | _ \<Rightarrow> True)
      | _ \<Rightarrow> True)"


section \<open>The documents of the test suite\<close>

text \<open>\<open>createMediaFile\<close> of the parser's tests.\<close>

definition createMediaFile :: "int \<Rightarrow> int \<Rightarrow> int \<Rightarrow> string \<Rightarrow> MediaFile" where
  "createMediaFile w h b t =
     \<lparr> MediaFile.id = None,
       url = ''https://example.com/'' @ int_toString w @ ''x'' @ int_toString h @ ''.mp4'',
       delivery = ''progressive'', type = t, width = w, height = h, bitrate = Some b,
       codec = None \<rparr>"

text \<open>
  \<open>SIMPLE_VAST\<close> and \<open>WRAPPER_VAST\<close> of the parser's tests, as \<open>parseXml\<close> reads them:
  an inline ad with one linear creative, and a wrapper pointing to it.
\<close>

definition SIMPLE_MEDIA_FILE :: MediaFile where
  "SIMPLE_MEDIA_FILE =
     \<lparr> MediaFile.id = None, url = ''https://example.com/video.mp4'',
       delivery = ''progressive'', type = ''video/mp4'',
       width = 1920, height = 1080, bitrate = Some 2500, codec = None \<rparr>"

definition SIMPLE_LINEAR :: Linear where
  "SIMPLE_LINEAR =
     \<lparr> duration = Finite 30, skipOffset = None,
       mediaFiles = [SIMPLE_MEDIA_FILE],
       trackingEvents =
         [\<lparr> event = ''start'', url = ''https://example.com/start'', offset = None \<rparr>,
          \<lparr> event = ''complete'', url = ''https://example.com/complete'', offset = None \<rparr>],
       videoClicks = None, adParameters = None \<rparr>"

definition SIMPLE_AD :: Ad where
  "SIMPLE_AD =
     \<lparr> Ad.id = ''12345'', sequence = None,
       adSystem = Some \<lparr> name = ''Test Ad Server'', version = Some ''1.0'' \<rparr>,
       adTitle = Some ''Test Ad'',
       impressions = [\<lparr> Impression.id = Some ''imp1'', url = ''https://example.com/impression'' \<rparr>],
       creatives =
         [\<lparr> Creative.id = Some ''creative1'', sequence = None, adId = None,
            linear = Some SIMPLE_LINEAR \<rparr>],
       errors = [], wrapper = None,
       inLine = Some \<lparr> InLine.adTitle = ''Test Ad'', description = None, advertiser = None,
                       creatives = [] \<rparr> \<rparr>"

definition SIMPLE_VAST :: VASTResponse where
  "SIMPLE_VAST = \<lparr> version = ''4.0'', ads = [SIMPLE_AD], errors = [] \<rparr>"

definition WRAPPER_AD :: Ad where
  "WRAPPER_AD =
     \<lparr> Ad.id = ''wrapper1'', sequence = None,
       adSystem = Some \<lparr> name = ''Wrapper Ad Server'', version = None \<rparr>,
       adTitle = None,
       impressions = [\<lparr> Impression.id = None, url = ''https://example.com/wrapper-impression'' \<rparr>],
       creatives =
         [\<lparr> Creative.id = None, sequence = None, adId = None,
            linear = Some
              \<lparr> duration = Finite 0, skipOffset = None, mediaFiles = [],
                trackingEvents =
                  [\<lparr> event = ''start'', url = ''https://example.com/wrapper-start'', offset = None \<rparr>],
                videoClicks = None, adParameters = None \<rparr> \<rparr>],
       errors = [],
       wrapper = Some \<lparr> vastAdTagURI = ''https://example.com/inline-vast.xml'',
                         followAdditionalWrappers = Some True, allowMultipleAds = None,
                         fallbackOnNoAd = None \<rparr>,
       inLine = None \<rparr>"

definition WRAPPER_VAST :: VASTResponse where
  "WRAPPER_VAST = \<lparr> version = ''4.0'', ads = [WRAPPER_AD], errors = [] \<rparr>"

text \<open>
  The transport of the wrapper tests: the wrapper document at the wrapper's URL, the
  inline document everywhere else.
\<close>

definition wrapperThenInline :: transport where
  "wrapperThenInline u =
     (if u = ''https://example.com/wrapper.xml'' then Resolves True 200 ''OK'' (Vast WRAPPER_VAST)
      else Resolves True 200 ''OK'' (Vast SIMPLE_VAST))"

definition defaultParserConfig :: VASTParserConfig where
  "defaultParserConfig = \<lparr> maxWrapperDepth = 5, timeout = 10000, debug = False \<rparr>"

text \<open>
  The same wrapper with \<open>fallbackOnNoAd\<close> set, and the transport that serves it at the
  wrapper's URL.
\<close>

definition FALLBACK_WRAPPER_AD :: Ad where
  "FALLBACK_WRAPPER_AD =
     WRAPPER_AD\<lparr> wrapper := Some \<lparr> vastAdTagURI = ''https://example.com/inline-vast.xml'',
                                     followAdditionalWrappers = Some True, allowMultipleAds = None,
                                     fallbackOnNoAd = Some True \<rparr> \<rparr>"

definition fallbackWrapperThenInline :: transport where
  "fallbackWrapperThenInline u =
     (if u = ''https://example.com/wrapper.xml''
      then Resolves True 200 ''OK'' (Vast \<lparr> version = ''4.0'', ads = [FALLBACK_WRAPPER_AD], errors = [] \<rparr>)
      else Resolves True 200 ''OK'' (Vast SIMPLE_VAST))"

text \<open>
  The failing transports of the parser's tests: a fetch that rejects with a network error,
  one that is aborted by the timeout, a response with status 404, and a body that is not
  a VAST document.
\<close>

definition networkError :: transport where
  "networkError u = Rejects (JsError ''Network error'')"

definition aborted :: transport where
  "aborted u = Rejects (JsError ''Aborted'')"

definition notFound :: transport where
  "notFound u = Resolves False 404 ''Not Found'' NoVast"

definition notVast :: transport where
  "notVast u = Resolves True 200 ''OK'' NoVast"


section \<open>The tracker (core/AdTracker)\<close>

text \<open>
  One call \<open>firePixel(replaceMacros(template, context))\<close>, with the place it comes from:
  the event type of \<open>track\<close>, \<open>fireImpressions\<close> or \<open>fireError\<close>. The URL that goes out
  is \<open>replaceMacros env template context\<close> for the clock and random value of that moment.
  \<open>firePixel\<close> itself tries \<open>sendBeacon\<close>, then \<open>fetch\<close> with keep-alive, then an image,
  and swallows every failure: each call is one delivery attempt, which is what is counted.
\<close>

datatype pixel_origin = Tracking string | ImpressionPixel | ErrorPixel

record pixel =
  origin :: pixel_origin
  template :: string
  used_context :: MacroContext

definition pixel_url :: "macro_env \<Rightarrow> pixel \<Rightarrow> string" where
  "pixel_url env p = replaceMacros env (template p) (used_context p)"

text \<open>
  The tracker's fields. \<open>trackingEvents\<close> is the \<open>Map\<close> from event type to the events
  of that type, \<open>firedEvents\<close> the \<open>Set\<close> of keys \<open>type:url\<close>.
\<close>

record AdTracker =
  trackingEvents :: "string \<Rightarrow> TrackingEvent list option"
  firedEvents :: "string set"
  macroContext :: MacroContext

definition groupEventsByType :: "TrackingEvent list \<Rightarrow> (string \<Rightarrow> TrackingEvent list option)" where
  "groupEventsByType events =
     foldl (\<lambda>m ev. m(event ev \<mapsto> (case m (event ev) of Some l \<Rightarrow> l | None \<Rightarrow> []) @ [ev]))
           Map.empty events"

definition newAdTracker :: "TrackingEvent list \<Rightarrow> AdTracker" where
  "newAdTracker events =
     \<lparr> trackingEvents = groupEventsByType events, firedEvents = {}, macroContext = emptyContext \<rparr>"

text \<open>
  \<open>{ ...this.macroContext, ...context }\<close>: the fields given in the update win. (An
  update that lists a field with the value \<open>undefined\<close> would clear it; the player never
  passes one, and the model has none.)
\<close>

definition mergeContext :: "MacroContext \<Rightarrow> MacroContext \<Rightarrow> MacroContext" where
  "mergeContext old upd =
     \<lparr> assetUri = (case assetUri upd of Some v \<Rightarrow> Some v | None \<Rightarrow> assetUri old),
       contentPlayhead = (case contentPlayhead upd of Some v \<Rightarrow> Some v | None \<Rightarrow> contentPlayhead old),
       adPlayhead = (case adPlayhead upd of Some v \<Rightarrow> Some v | None \<Rightarrow> adPlayhead old),
       errorCode = (case errorCode upd of Some v \<Rightarrow> Some v | None \<Rightarrow> errorCode old),
       breakPosition = (case breakPosition upd of Some v \<Rightarrow> Some v | None \<Rightarrow> breakPosition old),
       adType = (case adType upd of Some v \<Rightarrow> Some v | None \<Rightarrow> adType old) \<rparr>"

definition updateMacroContext :: "MacroContext \<Rightarrow> AdTracker \<Rightarrow> AdTracker" where
  "updateMacroContext upd tr = tr\<lparr> macroContext := mergeContext (macroContext tr) upd \<rparr>"

definition eventKey :: "string \<Rightarrow> string \<Rightarrow> string" where
  "eventKey eventType u = eventType @ '':'' @ u"

text \<open>
  The loop of \<open>track\<close> over the events of the type. The state is the tracker and the
  pixels fired so far in this call.
\<close>

fun trackEvents :: "string \<Rightarrow> bool \<Rightarrow> TrackingEvent list \<Rightarrow> AdTracker \<times> pixel list
                      \<Rightarrow> AdTracker \<times> pixel list" where
  "trackEvents eventType once [] st = st"
| "trackEvents eventType once (ev # evs) (tr, fired) =
     (if once \<and> eventKey eventType (TrackingEvent.url ev) \<in> firedEvents tr
      then trackEvents eventType once evs (tr, fired)
      else
        trackEvents eventType once evs
          (if once
           then tr\<lparr> firedEvents := insert (eventKey eventType (TrackingEvent.url ev)) (firedEvents tr) \<rparr>
           else tr,
           fired @ [\<lparr> origin = Tracking eventType, template = TrackingEvent.url ev,
                       used_context = macroContext tr \<rparr>]))"

text \<open>\<open>track\<close> returns the tracker afterwards and the pixels it fired, in order.\<close>

definition track :: "string \<Rightarrow> bool \<Rightarrow> AdTracker \<Rightarrow> AdTracker \<times> pixel list" where
  "track eventType once tr =
     (case trackingEvents tr eventType of
        None \<Rightarrow> (tr, [])
      | Some events \<Rightarrow> trackEvents eventType once events (tr, []))"

definition fireImpressions :: "string list \<Rightarrow> AdTracker \<Rightarrow> pixel list" where
  "fireImpressions impressionUrls tr =
     map (\<lambda>u. \<lparr> origin = ImpressionPixel, template = u, used_context = macroContext tr \<rparr>) impressionUrls"

definition fireError :: "string list \<Rightarrow> int \<Rightarrow> AdTracker \<Rightarrow> pixel list" where
  "fireError errorUrls c tr =
     map (\<lambda>u. \<lparr> origin = ErrorPixel, template = u,
                used_context = (macroContext tr)\<lparr> errorCode := Some c \<rparr> \<rparr>) errorUrls"

definition reset :: "AdTracker \<Rightarrow> AdTracker" where
  "reset tr = tr\<lparr> firedEvents := {} \<rparr>"

text \<open>The URLs registered for an event type in an event list, in order.\<close>

definition registeredUrls :: "TrackingEvent list \<Rightarrow> string \<Rightarrow> string list" where
  "registeredUrls events eventType =
     map TrackingEvent.url (filter (\<lambda>ev. event ev = eventType) events)"

text \<open>The templates of the pixels that an event type's \<open>track\<close> fired.\<close>

definition trackedUrls :: "string \<Rightarrow> pixel list \<Rightarrow> string list" where
  "trackedUrls eventType ps = map template (filter (\<lambda>p. origin p = Tracking eventType) ps)"

text \<open>
  The URLs of a list that \<open>track\<close> with \<open>once\<close> fires for an event type, given the keys
  fired before: those whose key is not fired yet, each at its first occurrence.
\<close>

fun unfired :: "string \<Rightarrow> string set \<Rightarrow> string list \<Rightarrow> string list" where
  "unfired eventType F [] = []"
| "unfired eventType F (u # us) =
     (if eventKey eventType u \<in> F then unfired eventType F us
      else u # unfired eventType (insert (eventKey eventType u) F) us)"


section \<open>The player (core/AdPlayer)\<close>

datatype PlaybackStatus =
  Idle | Loading | Ready | Playing | Paused | Completed | Error | WaitingForInteraction

record AdError =
  code :: int
  message :: string
  recoverable :: bool

record AdProgress =
  currentTime :: rat
  duration :: rat
  percentage :: rat
  quartile :: nat

datatype AdPlayerEvent =
    loaded_event
  | start_event
  | progress_event AdProgress
  | quartile_event string
  | complete_event
  | skip_event
  | click_event string
  | pause_event
  | resume_event
  | mute_event
  | unmute_event
  | error_event AdError
  | destroy_event

text \<open>
  What the player does that its surroundings can observe, in the order it does it: a pixel
  fired through the tracker, an event handed to a registered listener, and the calls of
  the configuration's callbacks (made when the callback is configured).
\<close>

datatype effect =
    FirePixel pixel
  | Notify nat AdPlayerEvent
  | OnStart
  | OnComplete
  | OnSkip
  | OnError AdError

record AdPlayerConfig =
  vastUrl :: string
  targetBitrate :: int
  maxWrapperDepth :: nat
  timeout :: nat
  debug :: bool
  skipButtonText :: string
  skipOffset :: "jsnum option"
  customStartOverlay :: bool

record AdPlayerState =
  status :: PlaybackStatus
  currentTime :: rat
  duration :: rat
  muted :: bool
  volume :: rat
  canSkip :: bool
  skipCountdown :: jsnum
  mediaFile :: "MediaFile option"
  error :: "AdError option"

text \<open>
  The player's fields. An element field says whether the element exists (for the video
  element: its \<open>src\<close>); a listener is known by a number; \<open>effects\<close> is the record of what
  the player has done so far.
\<close>

record AdPlayer =
  config :: AdPlayerConfig
  parser :: VASTParserConfig
  videoElement :: "string option"
  overlayElement :: bool
  skipButtonElement :: bool
  focusTrap :: bool
  boundKeyHandler :: bool
  tracker :: "AdTracker option"
  state :: AdPlayerState
  ads :: "Ad list"
  listeners :: "nat list"
  quartilesFired :: "nat set"
  effects :: "effect list"

definition newAdPlayer :: "AdPlayerConfig \<Rightarrow> AdPlayer" where
  "newAdPlayer c =
     \<lparr> config = c,
       parser = \<lparr> VASTParserConfig.maxWrapperDepth = AdPlayerConfig.maxWrapperDepth c,
                  timeout = AdPlayerConfig.timeout c, debug = AdPlayerConfig.debug c \<rparr>,
       videoElement = None, overlayElement = False, skipButtonElement = False,
       focusTrap = False, boundKeyHandler = False, tracker = None,
       state = \<lparr> status = Idle, currentTime = 0, duration = 0, muted = True, volume = 1,
                 canSkip = False, skipCountdown = Finite 0, mediaFile = None, error = None \<rparr>,
       ads = [], listeners = [], quartilesFired = {}, effects = [] \<rparr>"

definition createError :: "int \<Rightarrow> string \<Rightarrow> AdError" where
  "createError c m = \<lparr> code = c, message = m, recoverable = False \<rparr>"

definition updateStatus :: "PlaybackStatus \<Rightarrow> AdPlayer \<Rightarrow> AdPlayer" where
  "updateStatus s p = p\<lparr> state := (state p)\<lparr> status := s \<rparr> \<rparr>"

definition perform :: "effect list \<Rightarrow> AdPlayer \<Rightarrow> AdPlayer" where
  "perform es p = p\<lparr> effects := effects p @ es \<rparr>"

text \<open>
  \<open>emit\<close> hands the event to every listener of the registry, in the order they were added.
  What a listener does with it is not the player's (an exception it throws is caught).
\<close>

definition emit :: "AdPlayerEvent \<Rightarrow> AdPlayer \<Rightarrow> AdPlayer" where
  "emit ev p = perform (map (\<lambda>l. Notify l ev) (listeners p)) p"

text \<open>\<open>on\<close> adds to a \<open>Set\<close>: a listener already there is not added again.\<close>

definition on :: "nat \<Rightarrow> AdPlayer \<Rightarrow> AdPlayer" where
  "on l p = (if l \<in> set (listeners p) then p else p\<lparr> listeners := listeners p @ [l] \<rparr>)"

definition unsubscribe :: "nat \<Rightarrow> AdPlayer \<Rightarrow> AdPlayer" where
  "unsubscribe l p = p\<lparr> listeners := filter (\<lambda>k. k \<noteq> l) (listeners p) \<rparr>"

text \<open>\<open>this.tracker?.track(eventType)\<close>: nothing without a tracker.\<close>

definition trackerTrack :: "string \<Rightarrow> AdPlayer \<Rightarrow> AdPlayer" where
  "trackerTrack eventType p =
     (case tracker p of
        None \<Rightarrow> p
      | Some tr \<Rightarrow>
          perform (map FirePixel (snd (track eventType True tr)))
                  (p\<lparr> tracker := Some (fst (track eventType True tr)) \<rparr>))"

fun firstLinear :: "Creative list \<Rightarrow> Linear option" where
  "firstLinear [] = None"
| "firstLinear (c # cs) = (case linear c of Some l \<Rightarrow> Some l | None \<Rightarrow> firstLinear cs)"

fun getFirstLinearCreative :: "Ad list \<Rightarrow> Linear option" where
  "getFirstLinearCreative [] = None"
| "getFirstLinearCreative (ad # rest) =
     (case firstLinear (Ad.creatives ad) of
        Some l \<Rightarrow> Some l
      | None \<Rightarrow> getFirstLinearCreative rest)"

definition handleError :: "AdError \<Rightarrow> AdPlayer \<Rightarrow> AdPlayer" where
  "handleError err p0 =
     (let p = p0\<lparr> state := (state p0)\<lparr> status := Error, error := Some err \<rparr> \<rparr>;
          errorUrls = concat (map Ad.errors (ads p));
          p = (case tracker p of
                 None \<Rightarrow> p
               | Some tr \<Rightarrow> perform (map FirePixel (fireError errorUrls (code err) tr)) p);
          p = emit (error_event err) p
      in perform [OnError err] p)"

text \<open>\<open>!skipOffset || skipOffset <= 0\<close> for a skip offset that is given.\<close>

fun noSkip :: "jsnum \<Rightarrow> bool" where
  "noSkip NaN = True"
| "noSkip NegInfinity = True"
| "noSkip PosInfinity = False"
| "noSkip (Finite x) = (x \<le> 0)"

definition setupSkipButton :: "AdPlayer \<Rightarrow> AdPlayer" where
  "setupSkipButton p =
     (case (case skipOffset (config p) of
              Some v \<Rightarrow> Some v
            | None \<Rightarrow> (case getFirstLinearCreative (ads p) of
                         Some l \<Rightarrow> Linear.skipOffset l
                       | None \<Rightarrow> None)) of
        None \<Rightarrow> p
      | Some offs \<Rightarrow>
          if noSkip offs then p
          else p\<lparr> state := (state p)\<lparr> skipCountdown := offs, canSkip := False \<rparr>,
                  skipButtonElement := True \<rparr>)"

definition handlePlaybackStart :: "AdPlayer \<Rightarrow> AdPlayer" where
  "handlePlaybackStart p0 =
     (let p = updateStatus Playing p0;
          p = emit start_event p;
          p = perform [OnStart] p;
          impressionUrls = aggregateImpressions (ads p);
          p = (case tracker p of
                 None \<Rightarrow> p
               | Some tr \<Rightarrow> perform (map FirePixel (fireImpressions impressionUrls tr)) p);
          p = trackerTrack ''start'' p;
          p = trackerTrack ''creativeView'' p
      in setupSkipButton p)"

definition showStartOverlay :: "AdPlayer \<Rightarrow> AdPlayer" where
  "showStartOverlay p = (updateStatus WaitingForInteraction p)\<lparr> overlayElement := True \<rparr>"

definition removeOverlay :: "AdPlayer \<Rightarrow> AdPlayer" where
  "removeOverlay p = (if overlayElement p then p\<lparr> overlayElement := False \<rparr> else p)"

text \<open>What the host runtime answers to \<open>videoElement.play()\<close>.\<close>

datatype play_outcome = PlayAccepted | PlayRejected string

definition attemptAutoplay :: "play_outcome \<Rightarrow> AdPlayer \<Rightarrow> AdPlayer" where
  "attemptAutoplay outcome p =
     (case videoElement p of
        None \<Rightarrow> p
      | Some _ \<Rightarrow>
          (case outcome of
             PlayAccepted \<Rightarrow> handlePlaybackStart p
           | PlayRejected _ \<Rightarrow> showStartOverlay p))"

definition onStartClick :: "play_outcome \<Rightarrow> AdPlayer \<Rightarrow> AdPlayer" where
  "onStartClick outcome p0 =
     (let p = removeOverlay p0
      in case videoElement p of
           None \<Rightarrow> p
         | Some _ \<Rightarrow>
             (case outcome of
                PlayAccepted \<Rightarrow> handlePlaybackStart p
              | PlayRejected reason \<Rightarrow>
                  handleError (createError (errorCodeNumber GENERAL_LINEAR_ERROR)
                                 (''Playback failed: '' @ reason)) p))"

text \<open>The video element is created with the media file's URL as its source.\<close>

definition createVideoElement :: "MediaFile \<Rightarrow> AdPlayer \<Rightarrow> AdPlayer" where
  "createVideoElement mf p = p\<lparr> videoElement := Some (MediaFile.url mf) \<rparr>"

definition setupFocusManagement :: "AdPlayer \<Rightarrow> AdPlayer" where
  "setupFocusManagement p = p\<lparr> focusTrap := True, boundKeyHandler := True \<rparr>"

text \<open>The video element's \<open>error\<close> event, with the media error's message if it has one.\<close>

definition onVideoError :: "string \<Rightarrow> AdPlayer \<Rightarrow> AdPlayer" where
  "onVideoError m p =
     handleError (createError (errorCodeNumber MEDIA_NOT_SUPPORTED)
                    (if m = [] then ''Video playback error'' else m)) p"

text \<open>
  \<open>init\<close>, with the transport that answers the fetches and the host's answer to the
  autoplay attempt. The errors \<open>init\<close> throws are \<open>AdError\<close> objects, which its
  \<open>catch\<close> hands to \<open>handleError\<close> as they are. (Exceptions raised by the document
  object model or by a callback of the configuration are outside the model.)
\<close>

definition init :: "transport \<Rightarrow> play_outcome \<Rightarrow> AdPlayer \<Rightarrow> AdPlayer" where
  "init fetchFn outcome p0 =
     (let p = updateStatus Loading p0;
          result = parse (parser p) fetchFn (vastUrl (config p))
      in case (if success result then response result else None) of
           None \<Rightarrow>
             handleError
               (createError
                  (case ParseResult.error result of
                     Some e \<Rightarrow> errorCodeNumber (ParseError.code e)
                   | None \<Rightarrow> errorCodeNumber NO_VAST_RESPONSE)
                  (case ParseResult.error result of
                     Some e \<Rightarrow> if ParseError.message e = [] then ''Failed to parse VAST''
                               else ParseError.message e
                   | None \<Rightarrow> ''Failed to parse VAST'')) p
         | Some r \<Rightarrow>
             (let p = p\<lparr> ads := VASTResponse.ads r \<rparr> in
              if length (ads p) = 0
              then handleError (createError (errorCodeNumber NO_VAST_RESPONSE)
                                  ''No ads in VAST response'') p
              else
                case getFirstLinearCreative (ads p) of
                  None \<Rightarrow>
                    handleError (createError (errorCodeNumber GENERAL_LINEAR_ERROR)
                                   ''No linear creative found'') p
                | Some l \<Rightarrow>
                    (case selectBestMediaFile (mediaFiles l) (targetBitrate (config p)) of
                       None \<Rightarrow>
                         handleError (createError (errorCodeNumber FILE_NOT_FOUND)
                                        ''No suitable media file found'') p
                     | Some mf \<Rightarrow>
                         (let p = p\<lparr> state := (state p)\<lparr> mediaFile := Some mf \<rparr> \<rparr>;
                              trackingEvents = aggregateTrackingEvents (ads p);
                              p = p\<lparr> tracker := Some (updateMacroContext
                                       (emptyContext\<lparr> assetUri := Some (MediaFile.url mf) \<rparr>)
                                       (newAdTracker trackingEvents)) \<rparr>;
                              p = createVideoElement mf p;
                              p = setupFocusManagement p
                          in attemptAutoplay outcome p))))"

definition destroy :: "AdPlayer \<Rightarrow> AdPlayer" where
  "destroy p0 =
     (let p = p0\<lparr> boundKeyHandler := False, videoElement := None, overlayElement := False,
                  skipButtonElement := False, focusTrap := False \<rparr>;
          p = p\<lparr> tracker := map_option reset (tracker p) \<rparr>;
          p = p\<lparr> quartilesFired := {} \<rparr>;
          p = p\<lparr> listeners := [] \<rparr>;
          p = p\<lparr> ads := [] \<rparr>
      in emit destroy_event p)"

definition skip :: "AdPlayer \<Rightarrow> AdPlayer" where
  "skip p0 =
     (if \<not> canSkip (state p0) then p0
      else
        let p = trackerTrack ''skip'' p0;
            p = emit skip_event p;
            p = perform [OnSkip] p
        in destroy p)"

definition handleComplete :: "AdPlayer \<Rightarrow> AdPlayer" where
  "handleComplete p0 =
     (let p = updateStatus Completed p0;
          p = trackerTrack ''complete'' p;
          p = emit complete_event p
      in perform [OnComplete] p)"

text \<open>The pixels among a list of effects, in order.\<close>

fun firedPixels :: "effect list \<Rightarrow> pixel list" where
  "firedPixels [] = []"
| "firedPixels (FirePixel p # es) = p # firedPixels es"
| "firedPixels (_ # es) = firedPixels es"

text \<open>\<open>DEFAULT_CONFIG\<close> merged under a configuration that gives the VAST URL only.\<close>

definition defaultConfig :: "string \<Rightarrow> AdPlayerConfig" where
  "defaultConfig u =
     \<lparr> vastUrl = u, targetBitrate = 2500, maxWrapperDepth = 5, timeout = 10000, debug = False,
       skipButtonText = ''Skip Ad'', skipOffset = None, customStartOverlay = False \<rparr>"

text \<open>
  A document whose only ad carries an error URL and no creative, and the transport that
  serves it everywhere.
\<close>

definition NO_LINEAR_AD :: Ad where
  "NO_LINEAR_AD =
     SIMPLE_AD\<lparr> Ad.creatives := [],
                Ad.errors := [''https://example.com/error?code=[ERRORCODE]''] \<rparr>"

definition noLinearTransport :: transport where
  "noLinearTransport u =
     Resolves True 200 ''OK'' (Vast \<lparr> version = ''4.0'', ads = [NO_LINEAR_AD], errors = [] \<rparr>)"

text \<open>The transport that serves \<open>SIMPLE_VAST\<close> everywhere.\<close>

definition inlineTransport :: transport where
  "inlineTransport u = Resolves True 200 ''OK'' (Vast SIMPLE_VAST)"

text \<open>
  The player as \<open>init\<close> has set it up when it attempts autoplay: the ads of the
  response, the chosen media file, a new tracker seeded with the aggregated tracking
  events and the asset URI, the video element and the key handling.
\<close>

definition prepared :: "AdPlayer \<Rightarrow> VASTResponse \<Rightarrow> MediaFile \<Rightarrow> AdPlayer" where
  "prepared p0 r m =
     p0\<lparr> ads := VASTResponse.ads r,
         state := (state p0)\<lparr> status := Loading, mediaFile := Some m \<rparr>,
         tracker := Some (updateMacroContext (emptyContext\<lparr> assetUri := Some (MediaFile.url m) \<rparr>)
                            (newAdTracker (aggregateTrackingEvents (VASTResponse.ads r)))),
         videoElement := Some (MediaFile.url m),
         focusTrap := True, boundKeyHandler := True \<rparr>"



section \<open>Unfolding the test documents\<close>

lemmas fixtures =
  SIMPLE_MEDIA_FILE_def SIMPLE_LINEAR_def SIMPLE_AD_def SIMPLE_VAST_def WRAPPER_AD_def WRAPPER_VAST_def wrapperThenInline_def
  FALLBACK_WRAPPER_AD_def fallbackWrapperThenInline_def defaultParserConfig_def


section \<open>Macro replacement: tokens of absent fields stay\<close>

lemma sublist_prepend: "sublist xs ys \<Longrightarrow> sublist xs (ps @ ys)"
  unfolding sublist_def by (metis append.assoc)

lemma first_stop_unique:
  "x \<notin> set xs \<Longrightarrow> x \<notin> set ys \<Longrightarrow> xs @ x # r = ys @ x # s \<Longrightarrow> xs = ys"
proof (induction xs arbitrary: ys)
  case Nil
  then show ?case by (cases ys) auto
next
  case (Cons a xs)
  then show ?case by (cases ys) auto
qed

lemma replaceFrom_skip:
  "CHR ''['' \<notin> set xs \<Longrightarrow>
   replaceFrom (CHR ''['' # t) rep seen (xs @ ys) = xs @ replaceFrom (CHR ''['' # t) rep (seen @ xs) ys"
  by (induction xs arbitrary: seen) auto

lemma token_overlap:
  assumes tn: "macro_name tn" and un: "macro_name un" and ne: "tn \<noteq> un"
    and eq: "(CHR ''['' # tn @ '']'') @ rest = ps @ (CHR ''['' # un @ '']'') @ ss"
  shows "sublist (CHR ''['' # un @ '']'') rest"
proof -
  let ?T = "CHR ''['' # tn @ '']''" and ?U = "CHR ''['' # un @ '']''"
  from eq have "\<exists>us. (?T = ps @ us \<and> us @ rest = ?U @ ss) \<or> (?T @ us = ps \<and> rest = us @ ?U @ ss)"
    by (rule append_eq_append_conv2[THEN iffD1])
  then obtain us where
    "(?T = ps @ us \<and> us @ rest = ?U @ ss) \<or> (?T @ us = ps \<and> rest = us @ ?U @ ss)"
    by blast
  then show ?thesis
  proof
    assume r: "?T @ us = ps \<and> rest = us @ ?U @ ss"
    then show ?thesis unfolding sublist_def by blast
  next
    assume l: "?T = ps @ us \<and> us @ rest = ?U @ ss"
    show ?thesis
    proof (cases us)
      case Nil
      with l have "rest = ?U @ ss" by simp
      then show ?thesis by simp
    next
      case (Cons u us')
      with l have u: "u = CHR ''[''" by simp
      show ?thesis
      proof (cases ps)
        case Nil
        with l have "?T @ rest = ?U @ ss" by auto
        then have "tn @ CHR '']'' # rest = un @ CHR '']'' # ss" by simp
        have "CHR '']'' \<notin> set tn" "CHR '']'' \<notin> set un"
          using tn un by (simp_all add: macro_name_def)
        moreover note \<open>tn @ CHR '']'' # rest = un @ CHR '']'' # ss\<close>
        ultimately have "tn = un"
          by (rule first_stop_unique)
        with ne show ?thesis by simp
      next
        case (Cons p ps')
        with l \<open>us = u # us'\<close> u have "tn @ '']'' = ps' @ CHR ''['' # us'" by simp
        then have "CHR ''['' \<in> set (tn @ '']'')" by simp
        with tn show ?thesis by (simp add: macro_name_def)
      qed
    qed
  qed
qed

lemma replaceFrom_keeps:
  assumes tn: "macro_name tn" and un: "macro_name un" and ne: "tn \<noteq> un"
  shows "sublist (CHR ''['' # un @ '']'') s \<Longrightarrow>
         sublist (CHR ''['' # un @ '']'') (replaceFrom (CHR ''['' # tn @ '']'') rep seen s)"
proof (induction "CHR ''['' # tn @ '']''" rep seen s rule: replaceFrom.induct)
  case (1 rep seen)
  then show ?case by simp
next
  case (2 rep seen c cs)
  let ?T = "CHR ''['' # tn @ '']''" and ?U = "CHR ''['' # un @ '']''"
  show ?case
  proof (cases "prefix ?T (c # cs)")
    case True
    then obtain rest where rest: "c # cs = ?T @ rest" by (auto simp: prefix_def)
    from "2.prems" obtain ps ss where "c # cs = ps @ ?U @ ss" by (auto simp: sublist_def)
    with rest have "?T @ rest = ps @ ?U @ ss" by simp
    from token_overlap[OF tn un ne this] have "sublist ?U rest" .
    moreover have "drop (length ?T) (c # cs) = rest" using rest by simp
    ultimately have "sublist ?U (replaceFrom ?T rep (seen @ ?T) (drop (length ?T) (c # cs)))"
      using "2.hyps"(1) True by simp
    moreover have "replaceFrom ?T rep seen (c # cs)
        = getSubstitution ?T seen (drop (length ?T) (c # cs)) rep
          @ replaceFrom ?T rep (seen @ ?T) (drop (length ?T) (c # cs))"
      using True by (simp only: replaceFrom.simps) simp
    ultimately show ?thesis by (simp only: sublist_prepend)
  next
    case False
    from "2.prems" have "prefix ?U (c # cs) \<or> sublist ?U cs"
      by (simp add: sublist_Cons_right)
    then show ?thesis
    proof
      assume "sublist ?U cs"
      then have "sublist ?U (replaceFrom ?T rep (seen @ [c]) cs)"
        using "2.hyps"(2) False by simp
      moreover have "replaceFrom ?T rep seen (c # cs) = c # replaceFrom ?T rep (seen @ [c]) cs"
        using False by (simp only: replaceFrom.simps) simp
      ultimately show ?thesis by (simp add: sublist_Cons_right)
    next
      assume "prefix ?U (c # cs)"
      then obtain ss where c: "c = CHR ''[''" and cs: "cs = (un @ '']'') @ ss"
        by (auto simp: prefix_def)
      have no: "CHR ''['' \<notin> set (un @ '']'')" using un by (simp add: macro_name_def)
      have "replaceFrom ?T rep (seen @ [c]) cs
            = (un @ '']'') @ replaceFrom ?T rep ((seen @ [c]) @ (un @ '']'')) ss"
        unfolding cs by (rule replaceFrom_skip[OF no])
      then have "replaceFrom ?T rep seen (c # cs)
            = ?U @ replaceFrom ?T rep ((seen @ [c]) @ (un @ '']'')) ss"
        using False c by simp
      then show ?thesis by (metis sublist_appendI append_Nil)
    qed
  qed
qed

lemma macro_token_split:
  assumes "macro_token t"
  obtains n where "t = CHR ''['' # n @ '']''" and "macro_name n"
proof -
  from assms obtain r where "t = CHR ''['' # r" "r \<noteq> []" "last r = CHR '']''" "macro_name (butlast r)"
    by (auto simp: macro_token_def split: list.splits)
  moreover from this have "r = butlast r @ '']''"
    by (metis append_butlast_last_id)
  ultimately show ?thesis using that by metis
qed

lemma replaceAll_keeps:
  assumes "macro_token t" and "macro_token u" and "t \<noteq> u" and "sublist u s"
  shows "sublist u (replaceAll t rep s)"
proof -
  from assms(1) obtain tn where t: "t = CHR ''['' # tn @ '']''" and tn: "macro_name tn"
    by (rule macro_token_split)
  from assms(2) obtain un where u: "u = CHR ''['' # un @ '']''" and un: "macro_name un"
    by (rule macro_token_split)
  from assms(3) t u have "tn \<noteq> un" by auto
  from replaceFrom_keeps[OF tn un this] assms(4) show ?thesis
    unfolding replaceAll_def t u by blast
qed

lemma macro_tokens:
  "macro_token ''[TIMESTAMP]''" "macro_token ''[CACHEBUSTING]''" "macro_token ''[ASSETURI]''"
  "macro_token ''[CONTENTPLAYHEAD]''" "macro_token ''[ADPLAYHEAD]''" "macro_token ''[ERRORCODE]''"
  "macro_token ''[BREAKPOSITION]''" "macro_token ''[ADTYPE]''"
  by (simp_all add: macro_token_def macro_name_def)

lemma keep_opt:
  "macro_token t \<Longrightarrow> macro_token u \<Longrightarrow> t \<noteq> u \<Longrightarrow> sublist u s \<Longrightarrow>
   sublist u (case x of Some p \<Rightarrow> replaceAll t (f p) s | None \<Rightarrow> s)"
  by (cases x) (simp_all add: replaceAll_keeps)

lemma keep_opt_truthy:
  "macro_token t \<Longrightarrow> macro_token u \<Longrightarrow> t \<noteq> u \<Longrightarrow> sublist u s \<Longrightarrow>
   sublist u (case x of Some p \<Rightarrow> if p \<noteq> [] then replaceAll t (f p) s else s | None \<Rightarrow> s)"
  by (cases x) (simp_all add: replaceAll_keeps)

lemma keep_unconditional:
  assumes u: "macro_token u" and ne: "u \<noteq> ''[TIMESTAMP]''" "u \<noteq> ''[CACHEBUSTING]''"
    and tok: "sublist u s"
  shows "sublist u (replaceAll ''[CACHEBUSTING]'' c (replaceAll ''[TIMESTAMP]'' t s))"
proof -
  have first: "sublist u (replaceAll ''[TIMESTAMP]'' t s)"
    by (rule replaceAll_keeps[OF macro_tokens(1) u _ tok]) (use ne in auto)
  show ?thesis
    by (rule replaceAll_keeps[OF macro_tokens(2) u _ first]) (use ne in auto)
qed

lemma occurrences_prepend: "occurrences u ys \<le> occurrences u (xs @ ys)"
  by (induction xs) auto

lemma occurrences_inside:
  "CHR ''['' \<notin> set xs \<Longrightarrow> occurrences (CHR ''['' # t) (xs @ ys) = occurrences (CHR ''['' # t) ys"
  by (induction xs) auto

lemma token_not_prefix:
  assumes tn: "macro_name tn" and un: "macro_name un" and ne: "tn \<noteq> un"
  shows "\<not> prefix (CHR ''['' # un @ '']'') ((CHR ''['' # tn @ '']'') @ rest)"
proof
  assume "prefix (CHR ''['' # un @ '']'') ((CHR ''['' # tn @ '']'') @ rest)"
  then obtain ss where "(CHR ''['' # tn @ '']'') @ rest = (CHR ''['' # un @ '']'') @ ss"
    by (auto simp: prefix_def)
  then have "tn @ CHR '']'' # rest = un @ CHR '']'' # ss" by simp
  moreover have "CHR '']'' \<notin> set tn" "CHR '']'' \<notin> set un"
    using tn un by (simp_all add: macro_name_def)
  ultimately have "tn = un" by (metis first_stop_unique)
  with ne show False by simp
qed

lemma occurrences_after_token:
  assumes tn: "macro_name tn" and un: "macro_name un" and ne: "tn \<noteq> un"
  shows "occurrences (CHR ''['' # un @ '']'') ((CHR ''['' # tn @ '']'') @ rest)
         = occurrences (CHR ''['' # un @ '']'') rest"
proof -
  have "CHR ''['' \<notin> set (tn @ '']'')" using tn by (simp add: macro_name_def)
  from occurrences_inside[OF this, of "un @ '']''" rest]
  have "occurrences (CHR ''['' # un @ '']'') ((tn @ '']'') @ rest)
        = occurrences (CHR ''['' # un @ '']'') rest" .
  moreover have "\<not> prefix (CHR ''['' # un @ '']'') (CHR ''['' # (tn @ '']'') @ rest)"
    using token_not_prefix[OF tn un ne, of rest] by simp
  ultimately show ?thesis by simp
qed

lemma replaceFrom_occurrences:
  assumes tn: "macro_name tn" and un: "macro_name un" and ne: "tn \<noteq> un"
  shows "occurrences (CHR ''['' # un @ '']'') s
         \<le> occurrences (CHR ''['' # un @ '']'') (replaceFrom (CHR ''['' # tn @ '']'') rep seen s)"
proof (induction "CHR ''['' # tn @ '']''" rep seen s rule: replaceFrom.induct)
  case (1 rep seen)
  then show ?case by simp
next
  case (2 rep seen c cs)
  let ?T = "CHR ''['' # tn @ '']''" and ?U = "CHR ''['' # un @ '']''"
  show ?case
  proof (cases "prefix ?T (c # cs)")
    case True
    then obtain rest where rest: "c # cs = ?T @ rest" by (auto simp: prefix_def)
    have d: "drop (length ?T) (c # cs) = rest" using rest by simp
    have "occurrences ?U (c # cs) = occurrences ?U rest"
      unfolding rest by (rule occurrences_after_token[OF tn un ne])
    also have "\<dots> \<le> occurrences ?U (replaceFrom ?T rep (seen @ ?T) rest)"
      using "2.hyps"(1) True d by simp
    also have "\<dots> \<le> occurrences ?U (getSubstitution ?T seen rest rep
                                       @ replaceFrom ?T rep (seen @ ?T) rest)"
      by (rule occurrences_prepend)
    also have "getSubstitution ?T seen rest rep @ replaceFrom ?T rep (seen @ ?T) rest
               = replaceFrom ?T rep seen (c # cs)"
      using True d by (simp only: replaceFrom.simps) simp
    finally show ?thesis .
  next
    case False
    have step: "replaceFrom ?T rep seen (c # cs) = c # replaceFrom ?T rep (seen @ [c]) cs"
      using False by (simp only: replaceFrom.simps) simp
    have ih: "occurrences ?U cs \<le> occurrences ?U (replaceFrom ?T rep (seen @ [c]) cs)"
      using "2.hyps"(2) False by simp
    show ?thesis
    proof (cases "prefix ?U (c # cs)")
      case True
      then obtain ss where c: "c = CHR ''[''" and cs: "cs = (un @ '']'') @ ss"
        by (auto simp: prefix_def)
      have no: "CHR ''['' \<notin> set (un @ '']'')" using un by (simp add: macro_name_def)
      have "replaceFrom ?T rep (seen @ [c]) cs
            = (un @ '']'') @ replaceFrom ?T rep ((seen @ [c]) @ (un @ '']'')) ss"
        unfolding cs by (rule replaceFrom_skip[OF no])
      then have pre: "prefix ?U (c # replaceFrom ?T rep (seen @ [c]) cs)"
        using c by simp
      have "occurrences ?U (c # cs) = 1 + occurrences ?U cs"
        using True by (simp only: occurrences.simps if_True)
      also have "\<dots> \<le> 1 + occurrences ?U (replaceFrom ?T rep (seen @ [c]) cs)"
        using ih by simp
      also have "\<dots> = occurrences ?U (c # replaceFrom ?T rep (seen @ [c]) cs)"
        using pre by (simp only: occurrences.simps if_True)
      finally show ?thesis unfolding step .
    next
      case False
      then have "occurrences ?U (c # cs) = 0 + occurrences ?U cs"
        by (simp only: occurrences.simps if_False)
      also have "\<dots> \<le> occurrences ?U (replaceFrom ?T rep (seen @ [c]) cs)"
        using ih by simp
      also have "\<dots> \<le> occurrences ?U (c # replaceFrom ?T rep (seen @ [c]) cs)"
        by (simp only: occurrences.simps le_add2)
      finally show ?thesis unfolding step .
    qed
  qed
qed

lemma replaceAll_occurrences:
  assumes "macro_token t" and "macro_token u" and "t \<noteq> u"
  shows "occurrences u s \<le> occurrences u (replaceAll t rep s)"
proof -
  from assms(1) obtain tn where t: "t = CHR ''['' # tn @ '']''" and tn: "macro_name tn"
    by (rule macro_token_split)
  from assms(2) obtain un where u: "u = CHR ''['' # un @ '']''" and un: "macro_name un"
    by (rule macro_token_split)
  from assms(3) t u have "tn \<noteq> un" by auto
  from replaceFrom_occurrences[OF tn un this] show ?thesis
    unfolding replaceAll_def t u by blast
qed

lemma count_opt:
  "macro_token t \<Longrightarrow> macro_token u \<Longrightarrow> t \<noteq> u \<Longrightarrow> n \<le> occurrences u s \<Longrightarrow>
   n \<le> occurrences u (case x of Some p \<Rightarrow> replaceAll t (f p) s | None \<Rightarrow> s)"
  by (cases x) (auto intro: order_trans[OF _ replaceAll_occurrences])

lemma count_opt_truthy:
  "macro_token t \<Longrightarrow> macro_token u \<Longrightarrow> t \<noteq> u \<Longrightarrow> n \<le> occurrences u s \<Longrightarrow>
   n \<le> occurrences u (case x of Some p \<Rightarrow> if p \<noteq> [] then replaceAll t (f p) s else s | None \<Rightarrow> s)"
  by (cases x) (auto intro: order_trans[OF _ replaceAll_occurrences])

lemma count_unconditional:
  assumes u: "macro_token u" and ne: "u \<noteq> ''[TIMESTAMP]''" "u \<noteq> ''[CACHEBUSTING]''"
  shows "occurrences u s
         \<le> occurrences u (replaceAll ''[CACHEBUSTING]'' c (replaceAll ''[TIMESTAMP]'' t s))"
proof -
  have "occurrences u s \<le> occurrences u (replaceAll ''[TIMESTAMP]'' t s)"
    by (rule replaceAll_occurrences[OF macro_tokens(1) u]) (use ne in auto)
  also have "\<dots> \<le> occurrences u (replaceAll ''[CACHEBUSTING]'' c (replaceAll ''[TIMESTAMP]'' t s))"
    by (rule replaceAll_occurrences[OF macro_tokens(2) u]) (use ne in auto)
  finally show ?thesis .
qed

text \<open>
  C7. \<open>replaceMacros\<close> replaces a conditional macro only when its context field is
  present: for each of \<open>[ASSETURI]\<close>, \<open>[CONTENTPLAYHEAD]\<close>, \<open>[ADPLAYHEAD]\<close>,
  \<open>[ERRORCODE]\<close>, \<open>[BREAKPOSITION]\<close> and \<open>[ADTYPE]\<close>, when the field is absent from the
  context, the result has at least as many occurrences of the token as the URL (none is
  replaced), and a token that occurs in the URL still occurs, literally, in the result,
  whatever the other fields, the clock and the random value are.
\<close>

theorem replaceMacros_keeps_absent:
  "(assetUri ctx = None \<longrightarrow>
      occurrences ''[ASSETURI]'' u \<le> occurrences ''[ASSETURI]'' (replaceMacros env u ctx)
      \<and> (sublist ''[ASSETURI]'' u \<longrightarrow> sublist ''[ASSETURI]'' (replaceMacros env u ctx)))
   \<and> (contentPlayhead ctx = None \<longrightarrow>
      occurrences ''[CONTENTPLAYHEAD]'' u \<le> occurrences ''[CONTENTPLAYHEAD]'' (replaceMacros env u ctx)
      \<and> (sublist ''[CONTENTPLAYHEAD]'' u \<longrightarrow> sublist ''[CONTENTPLAYHEAD]'' (replaceMacros env u ctx)))
   \<and> (adPlayhead ctx = None \<longrightarrow>
      occurrences ''[ADPLAYHEAD]'' u \<le> occurrences ''[ADPLAYHEAD]'' (replaceMacros env u ctx)
      \<and> (sublist ''[ADPLAYHEAD]'' u \<longrightarrow> sublist ''[ADPLAYHEAD]'' (replaceMacros env u ctx)))
   \<and> (errorCode ctx = None \<longrightarrow>
      occurrences ''[ERRORCODE]'' u \<le> occurrences ''[ERRORCODE]'' (replaceMacros env u ctx)
      \<and> (sublist ''[ERRORCODE]'' u \<longrightarrow> sublist ''[ERRORCODE]'' (replaceMacros env u ctx)))
   \<and> (breakPosition ctx = None \<longrightarrow>
      occurrences ''[BREAKPOSITION]'' u \<le> occurrences ''[BREAKPOSITION]'' (replaceMacros env u ctx)
      \<and> (sublist ''[BREAKPOSITION]'' u \<longrightarrow> sublist ''[BREAKPOSITION]'' (replaceMacros env u ctx)))
   \<and> (adType ctx = None \<longrightarrow>
      occurrences ''[ADTYPE]'' u \<le> occurrences ''[ADTYPE]'' (replaceMacros env u ctx)
      \<and> (sublist ''[ADTYPE]'' u \<longrightarrow> sublist ''[ADTYPE]'' (replaceMacros env u ctx)))"
proof -
  note mt = macro_tokens
  have a: "sublist ''[ASSETURI]'' (replaceMacros env u ctx)"
    if absent: "assetUri ctx = None" and tok: "sublist ''[ASSETURI]'' u"
    unfolding replaceMacros_def Let_def absent option.case
    by (intro keep_opt keep_opt_truthy keep_unconditional mt tok) simp_all
  have b: "sublist ''[CONTENTPLAYHEAD]'' (replaceMacros env u ctx)"
    if absent: "contentPlayhead ctx = None" and tok: "sublist ''[CONTENTPLAYHEAD]'' u"
    unfolding replaceMacros_def Let_def absent option.case
    by (intro keep_opt keep_opt_truthy keep_unconditional mt tok) simp_all
  have c: "sublist ''[ADPLAYHEAD]'' (replaceMacros env u ctx)"
    if absent: "adPlayhead ctx = None" and tok: "sublist ''[ADPLAYHEAD]'' u"
    unfolding replaceMacros_def Let_def absent option.case
    by (intro keep_opt keep_opt_truthy keep_unconditional mt tok) simp_all
  have d: "sublist ''[ERRORCODE]'' (replaceMacros env u ctx)"
    if absent: "errorCode ctx = None" and tok: "sublist ''[ERRORCODE]'' u"
    unfolding replaceMacros_def Let_def absent option.case
    by (intro keep_opt keep_opt_truthy keep_unconditional mt tok) simp_all
  have e: "sublist ''[BREAKPOSITION]'' (replaceMacros env u ctx)"
    if absent: "breakPosition ctx = None" and tok: "sublist ''[BREAKPOSITION]'' u"
    unfolding replaceMacros_def Let_def absent option.case
    by (intro keep_opt keep_opt_truthy keep_unconditional mt tok) simp_all
  have f: "sublist ''[ADTYPE]'' (replaceMacros env u ctx)"
    if absent: "adType ctx = None" and tok: "sublist ''[ADTYPE]'' u"
    unfolding replaceMacros_def Let_def absent option.case
    by (intro keep_opt keep_opt_truthy keep_unconditional mt tok) simp_all
  have a': "occurrences ''[ASSETURI]'' u \<le> occurrences ''[ASSETURI]'' (replaceMacros env u ctx)"
    if absent: "assetUri ctx = None"
    unfolding replaceMacros_def Let_def absent option.case
    by (intro count_opt count_opt_truthy count_unconditional mt; simp)
  have b': "occurrences ''[CONTENTPLAYHEAD]'' u
            \<le> occurrences ''[CONTENTPLAYHEAD]'' (replaceMacros env u ctx)"
    if absent: "contentPlayhead ctx = None"
    unfolding replaceMacros_def Let_def absent option.case
    by (intro count_opt count_opt_truthy count_unconditional mt; simp)
  have c': "occurrences ''[ADPLAYHEAD]'' u \<le> occurrences ''[ADPLAYHEAD]'' (replaceMacros env u ctx)"
    if absent: "adPlayhead ctx = None"
    unfolding replaceMacros_def Let_def absent option.case
    by (intro count_opt count_opt_truthy count_unconditional mt; simp)
  have d': "occurrences ''[ERRORCODE]'' u \<le> occurrences ''[ERRORCODE]'' (replaceMacros env u ctx)"
    if absent: "errorCode ctx = None"
    unfolding replaceMacros_def Let_def absent option.case
    by (intro count_opt count_opt_truthy count_unconditional mt; simp)
  have e': "occurrences ''[BREAKPOSITION]'' u
            \<le> occurrences ''[BREAKPOSITION]'' (replaceMacros env u ctx)"
    if absent: "breakPosition ctx = None"
    unfolding replaceMacros_def Let_def absent option.case
    by (intro count_opt count_opt_truthy count_unconditional mt; simp)
  have f': "occurrences ''[ADTYPE]'' u \<le> occurrences ''[ADTYPE]'' (replaceMacros env u ctx)"
    if absent: "adType ctx = None"
    unfolding replaceMacros_def Let_def absent option.case
    by (intro count_opt count_opt_truthy count_unconditional mt; simp)
  from a b c d e f a' b' c' d' e' f' show ?thesis by blast
qed

theorem replaceMacros_keeps_absent_witness:
  "assetUri emptyContext = None
   \<and> sublist ''[ASSETURI]'' ''https://example.com/track?asset=[ASSETURI]&error=[ERRORCODE]''
   \<and> sublist ''[ASSETURI]''
        (replaceMacros \<lparr>now = 1768305600000, cachebuster = ''k3x9''\<rparr>
           ''https://example.com/track?asset=[ASSETURI]&error=[ERRORCODE]'' emptyContext)
   \<and> errorCode emptyContext = None
   \<and> sublist ''[ERRORCODE]'' ''https://example.com/track?asset=[ASSETURI]&error=[ERRORCODE]''
   \<and> sublist ''[ERRORCODE]''
        (replaceMacros \<lparr>now = 1768305600000, cachebuster = ''k3x9''\<rparr>
           ''https://example.com/track?asset=[ASSETURI]&error=[ERRORCODE]'' emptyContext)
   \<and> 1 \<le> occurrences ''[ERRORCODE]''
        (replaceMacros \<lparr>now = 1768305600000, cachebuster = ''k3x9''\<rparr>
           ''https://example.com/track?asset=[ASSETURI]&error=[ERRORCODE]'' emptyContext)"
proof -
  let ?u = "''https://example.com/track?asset=[ASSETURI]&error=[ERRORCODE]''"
  let ?env = "\<lparr>now = 1768305600000, cachebuster = ''k3x9''\<rparr>"
  have h1: "assetUri emptyContext = None" and h2: "errorCode emptyContext = None"
    by (simp_all add: emptyContext_def)
  have h3: "sublist ''[ASSETURI]'' ?u" and h4: "sublist ''[ERRORCODE]'' ?u"
    by (simp_all add: sublist_Cons_right)
  have h5: "occurrences ''[ERRORCODE]'' ?u = 1"
    by simp
  from replaceMacros_keeps_absent[of emptyContext ?u ?env] h1 h2 h3 h4
  have "sublist ''[ASSETURI]'' (replaceMacros ?env ?u emptyContext)"
    and "sublist ''[ERRORCODE]'' (replaceMacros ?env ?u emptyContext)"
    and "occurrences ''[ERRORCODE]'' ?u \<le> occurrences ''[ERRORCODE]'' (replaceMacros ?env ?u emptyContext)"
    by blast+
  with h1 h2 h3 h4 h5 show ?thesis by simp
qed

text \<open>The same URL, evaluated: only the unconditional macro is replaced.\<close>

lemma replaceMacros_example:
  "replaceMacros \<lparr>now = 1768305600000, cachebuster = ''k3x9''\<rparr>
     ''https://example.com/track?asset=[ASSETURI]&error=[ERRORCODE]&ts=[TIMESTAMP]'' emptyContext
   = ''https://example.com/track?asset=[ASSETURI]&error=[ERRORCODE]&ts=1768305600000''"
  by (simp add: replaceMacros_def replaceAll_def emptyContext_def digit_char_def)

text \<open>A field that is present is substituted: the error code of the tracker's error pixel.\<close>

lemma replaceMacros_errorCode_example:
  "replaceMacros \<lparr>now = 17, cachebuster = ''k3x9''\<rparr> ''https://example.com/error?code=[ERRORCODE]''
     (emptyContext\<lparr>errorCode := Some 402\<rparr>)
   = ''https://example.com/error?code=402''"
  by (simp add: replaceMacros_def replaceAll_def emptyContext_def int_toString_def digit_char_def)

section \<open>Durations\<close>

lemmas number_parsing =
  parseFloat_def parseInt_def match_here_def is_digit_def is_space_def digit_value_def
  digits_value_def pow10_def exponent_part_def suffix_to_prefix

text \<open>The values the claim lists, and inputs without a number.\<close>

lemma parseDuration_examples:
  "parseDuration (JString ''00:00:30'') = Finite 30"
  "parseDuration (JString ''01:30:45'') = Finite 5445"
  "parseDuration (JString ''00:00:30.500'') = Finite (61 / 2)"
  "parseDuration (JString ''50%'') = Finite (1 / 2)"
  "parseDuration (JString ''abc'') = Finite 0"
  "parseDuration (JString '''') = Finite 0"
  "parseDuration JOther = Finite 0"
  by (simp_all add: number_parsing Let_def)

text \<open>
  C6. The three time codes and the percentage of the claim parse as it says, and a string
  without a number parses to zero; but an expression that ends in a percent sign and has
  no number before it yields \<open>NaN\<close>, not zero: the percentage branch returns
  \<open>parseFloat(duration) / 100\<close> without the \<open>|| 0\<close> of the last branch.
\<close>

theorem parseDuration_percent_sign:
  "parseDuration (JString ''%'') = NaN \<and> parseDuration (JString ''abc%'') = NaN"
  by (simp add: number_parsing Let_def)

section \<open>Media file selection\<close>

text \<open>The head of a stable sort is the first element of least key.\<close>

lemma hd_insort_key:
  "hd (insort_key k x ys) = (if ys = [] \<or> k x \<le> k (hd ys) then x else hd ys)"
  by (cases ys) auto

lemma insort_key_not_Nil: "insort_key k x ys \<noteq> []"
  by (cases ys) auto

lemma sort_key_first_minimum:
  fixes k :: "'a \<Rightarrow> int"
  assumes "xs \<noteq> []"
  shows "\<exists>before after. xs = before @ hd (sort_key k xs) # after
           \<and> (\<forall>y \<in> set before. k (hd (sort_key k xs)) < k y)
           \<and> (\<forall>y \<in> set after. k (hd (sort_key k xs)) \<le> k y)"
  using assms
proof (induction xs)
  case Nil
  then show ?case by simp
next
  case (Cons x xs)
  show ?case
  proof (cases "xs = []")
    case True
    have "[x] = [] @ x # []" by simp
    then show ?thesis using True by (intro exI[of _ "[]"]) simp
  next
    case False
    with Cons.IH obtain before after where
      split: "xs = before @ hd (sort_key k xs) # after"
      and b: "\<forall>y \<in> set before. k (hd (sort_key k xs)) < k y"
      and a: "\<forall>y \<in> set after. k (hd (sort_key k xs)) \<le> k y"
      by blast
    let ?m = "hd (sort_key k xs)"
    have ne: "sort_key k xs \<noteq> []" using False by (cases xs) (auto simp: insort_key_not_Nil)
    have all: "\<forall>y \<in> set xs. k ?m \<le> k y"
    proof
      fix y assume "y \<in> set xs"
      then have "y \<in> set before \<or> y = ?m \<or> y \<in> set after"
        by (subst (asm) split) auto
      then show "k ?m \<le> k y" using a b by fastforce
    qed
    show ?thesis
    proof (cases "k x \<le> k ?m")
      case True
      then have h: "hd (sort_key k (x # xs)) = x" using ne by (simp add: hd_insort_key)
      have "x # xs = [] @ x # xs" by simp
      moreover have "\<forall>y \<in> set xs. k x \<le> k y" using all True by fastforce
      ultimately show ?thesis unfolding h by (metis empty_iff list.set(1))
    next
      case False
      then have h: "hd (sort_key k (x # xs)) = ?m" using ne by (simp add: hd_insort_key)
      have "x # xs = (x # before) @ ?m # after" using split by simp
      moreover have "\<forall>y \<in> set (x # before). k ?m < k y" using b False by auto
      ultimately show ?thesis unfolding h using a by blast
    qed
  qed
qed

lemma candidates_not_Nil: "files \<noteq> [] \<Longrightarrow> candidates files \<noteq> []"
  by (auto simp: candidates_def Let_def)

lemma selectBestMediaFile_hd:
  "files \<noteq> [] \<Longrightarrow>
   selectBestMediaFile files t = Some (hd (sort_key (diff t) (candidates files)))"
proof -
  assume ne: "files \<noteq> []"
  then have "candidates files \<noteq> []" by (rule candidates_not_Nil)
  then have "sort_key (diff t) (candidates files) \<noteq> []"
    by (cases "candidates files") (auto simp: insort_key_not_Nil)
  then show ?thesis using ne
    by (cases "sort_key (diff t) (candidates files)") (auto simp: selectBestMediaFile_def)
qed

text \<open>
  C3 (amended). For a non-empty list, \<open>selectBestMediaFile\<close> returns the first
  candidate, in the original order, of least score
  \<open>abs(bitrate_or_0 - target) + (height > 1080 ? 10000 : 0)\<close>: the candidates before it
  score strictly more, those after it at least as much. It therefore returns a file of
  height at most 1080 whenever some candidate of height at most 1080 has a bit rate less
  than 10000 away from the target.
\<close>

theorem selectBestMediaFile_first_minimum:
  assumes "files \<noteq> []"
  shows "\<exists>best before after.
           selectBestMediaFile files t = Some best
         \<and> candidates files = before @ best # after
         \<and> (\<forall>c \<in> set before. diff t best < diff t c)
         \<and> (\<forall>c \<in> set after. diff t best \<le> diff t c)
         \<and> ((\<exists>c \<in> set (candidates files).
                height c \<le> 1080
              \<and> \<bar>(case bitrate c of Some b \<Rightarrow> b | None \<Rightarrow> 0) - t\<bar> < 10000)
             \<longrightarrow> height best \<le> 1080)"
proof -
  let ?best = "hd (sort_key (diff t) (candidates files))"
  from assms have sel: "selectBestMediaFile files t = Some ?best"
    by (rule selectBestMediaFile_hd)
  from assms have "candidates files \<noteq> []" by (rule candidates_not_Nil)
  from sort_key_first_minimum[OF this, of "diff t"] obtain before after where
    split: "candidates files = before @ ?best # after"
    and b: "\<forall>c \<in> set before. diff t ?best < diff t c"
    and a: "\<forall>c \<in> set after. diff t ?best \<le> diff t c"
    by blast
  have low: "height ?best \<le> 1080"
    if c: "c \<in> set (candidates files)" and h: "height c \<le> 1080"
      and near: "\<bar>(case bitrate c of Some b \<Rightarrow> b | None \<Rightarrow> 0) - t\<bar> < 10000" for c
  proof -
    from c have "c \<in> set before \<or> c = ?best \<or> c \<in> set after"
      by (subst (asm) split) auto
    then have le: "diff t ?best \<le> diff t c" using a b by fastforce
    have "diff t c < 10000" using h near by (simp add: diff_def Let_def)
    with le have "diff t ?best < 10000" by simp
    then show ?thesis by (auto simp: diff_def Let_def split: if_splits)
  qed
  show ?thesis using sel split b a low by blast
qed

theorem selectBestMediaFile_first_minimum_witness:
  "[createMediaFile 3840 2160 8000 ''video/mp4'', createMediaFile 1920 1080 2500 ''video/mp4'',
    createMediaFile 1280 720 1500 ''video/mp4''] \<noteq> []
   \<and> (\<exists>best. selectBestMediaFile
                [createMediaFile 3840 2160 8000 ''video/mp4'',
                 createMediaFile 1920 1080 2500 ''video/mp4'',
                 createMediaFile 1280 720 1500 ''video/mp4''] 2500 = Some best
            \<and> height best \<le> 1080)"
proof -
  let ?files = "[createMediaFile 3840 2160 8000 ''video/mp4'',
                 createMediaFile 1920 1080 2500 ''video/mp4'',
                 createMediaFile 1280 720 1500 ''video/mp4'']"
  have ne: "?files \<noteq> []" by simp
  from selectBestMediaFile_first_minimum[OF ne, of 2500] obtain best where
    sel: "selectBestMediaFile ?files 2500 = Some best"
    and low: "(\<exists>c \<in> set (candidates ?files).
                height c \<le> 1080
              \<and> \<bar>(case bitrate c of Some b \<Rightarrow> b | None \<Rightarrow> 0) - 2500\<bar> < 10000)
             \<longrightarrow> height best \<le> 1080"
    by blast
  have "createMediaFile 1920 1080 2500 ''video/mp4'' \<in> set (candidates ?files)"
    by (simp add: candidates_def isMp4_def str_includes_def sublist_Cons_right
          createMediaFile_def Let_def)
  moreover have "height (createMediaFile 1920 1080 2500 ''video/mp4'') \<le> 1080
      \<and> \<bar>(case bitrate (createMediaFile 1920 1080 2500 ''video/mp4'') of Some b \<Rightarrow> b | None \<Rightarrow> 0)
          - 2500\<bar> < 10000"
    by (simp add: createMediaFile_def)
  ultimately have "height best \<le> 1080" using low by blast
  with sel ne show ?thesis by blast
qed


text \<open>
  The claim as it is written fails: with a target of 2500, a 2160-line file at 2500 kbps
  scores 10000 and a 1080-line file at 15000 kbps scores 12500, so the 2160-line file is
  returned although a candidate of height at most 1080 exists.
\<close>

theorem selectBestMediaFile_4k_counterexample:
  "selectBestMediaFile
     [createMediaFile 3840 2160 2500 ''video/mp4'', createMediaFile 1920 1080 15000 ''video/mp4'']
     2500
   = Some (createMediaFile 3840 2160 2500 ''video/mp4'')
   \<and> createMediaFile 1920 1080 15000 ''video/mp4''
       \<in> set (candidates [createMediaFile 3840 2160 2500 ''video/mp4'',
                           createMediaFile 1920 1080 15000 ''video/mp4''])
   \<and> height (createMediaFile 1920 1080 15000 ''video/mp4'') \<le> 1080
   \<and> height (createMediaFile 3840 2160 2500 ''video/mp4'') > 1080"
  by (simp add: selectBestMediaFile_def candidates_def isMp4_def str_includes_def
        sublist_Cons_right diff_def createMediaFile_def Let_def)


section \<open>Resolution\<close>

lemma firstLinear_merge:
  "firstLinear (map (mergeCreative w) cs)
   = map_option (\<lambda>l. l\<lparr> Linear.trackingEvents := getWrapperTrackingEvents w @ Linear.trackingEvents l \<rparr>)
       (firstLinear cs)"
  by (induction cs) (auto simp: mergeCreative_def split: option.splits)

lemma mergeCreative_linear:
  "linear (mergeCreative w c)
   = map_option (\<lambda>l. l\<lparr> Linear.trackingEvents := getWrapperTrackingEvents w @ Linear.trackingEvents l \<rparr>) (linear c)"
  by (simp add: mergeCreative_def split: option.splits)

text \<open>
  C4. When the nested document of a wrapper resolves, the wrapper resolves to the nested
  document's ads, each merged with the wrapper: its impressions and errors are the
  wrapper's followed by its own, and every creative keeps its place, a linear creative's
  tracking events being the wrapper's tracking events (those of all the wrapper's linear
  creatives, in order) followed by its own. This holds for every linear creative of the
  nested ad, so in particular for its first.
\<close>

theorem wrapper_merge:
  assumes "wrapper w = Some wr" and "vastAdTagURI wr \<noteq> []"
    and "fetchAndParse cfg f (vastAdTagURI wr) d = Inr nested"
  shows "resolveWrapper cfg f w d = Inr (map (mergeWrapperTracking w) (VASTResponse.ads nested))
    \<and> (\<forall>a \<in> set (VASTResponse.ads nested).
          impressions (mergeWrapperTracking w a) = impressions w @ impressions a
        \<and> Ad.errors (mergeWrapperTracking w a) = Ad.errors w @ Ad.errors a
        \<and> length (Ad.creatives (mergeWrapperTracking w a)) = length (Ad.creatives a)
        \<and> (\<forall>i < length (Ad.creatives a).
              linear (Ad.creatives (mergeWrapperTracking w a) ! i)
              = map_option (\<lambda>l. l\<lparr> Linear.trackingEvents := getWrapperTrackingEvents w @ Linear.trackingEvents l \<rparr>)
                  (linear (Ad.creatives a ! i)))
        \<and> firstLinear (Ad.creatives (mergeWrapperTracking w a))
          = map_option (\<lambda>l. l\<lparr> Linear.trackingEvents := getWrapperTrackingEvents w @ Linear.trackingEvents l \<rparr>)
              (firstLinear (Ad.creatives a)))
    \<and> getWrapperTrackingEvents w
      = concat (map Linear.trackingEvents (List.map_filter linear (Ad.creatives w)))"
proof -
  have r: "resolveWrapper cfg f w d = Inr (map (mergeWrapperTracking w) (VASTResponse.ads nested))"
    using assms by simp
  have "concat (map (\<lambda>c. case linear c of Some l \<Rightarrow> Linear.trackingEvents l | None \<Rightarrow> []) cs)
      = concat (map Linear.trackingEvents (List.map_filter linear cs))" for cs
    by (induction cs) (auto simp: List.map_filter_simps split: option.splits)
  then have g: "getWrapperTrackingEvents w
      = concat (map Linear.trackingEvents (List.map_filter linear (Ad.creatives w)))"
    unfolding getWrapperTrackingEvents_def by blast
  show ?thesis
    using r g by (simp add: mergeWrapperTracking_def firstLinear_merge mergeCreative_linear)
qed

theorem wrapper_merge_witness:
  "wrapper WRAPPER_AD
     = Some \<lparr> vastAdTagURI = ''https://example.com/inline-vast.xml'',
              followAdditionalWrappers = Some True, allowMultipleAds = None,
              fallbackOnNoAd = None \<rparr>
   \<and> fetchAndParse defaultParserConfig wrapperThenInline ''https://example.com/inline-vast.xml'' (Suc 0)
     = Inr SIMPLE_VAST
   \<and> resolveWrapper defaultParserConfig wrapperThenInline WRAPPER_AD (Suc 0)
     = Inr [mergeWrapperTracking WRAPPER_AD SIMPLE_AD]
   \<and> map Impression.url (impressions (mergeWrapperTracking WRAPPER_AD SIMPLE_AD))
     = [''https://example.com/wrapper-impression'', ''https://example.com/impression'']
   \<and> map_option (map TrackingEvent.url \<circ> Linear.trackingEvents)
        (firstLinear (Ad.creatives (mergeWrapperTracking WRAPPER_AD SIMPLE_AD)))
     = Some [''https://example.com/wrapper-start'', ''https://example.com/start'',
             ''https://example.com/complete'']"
proof -
  let ?wr = "\<lparr> vastAdTagURI = ''https://example.com/inline-vast.xml'',
              followAdditionalWrappers = Some True, allowMultipleAds = None,
              fallbackOnNoAd = None \<rparr>"
  have w: "wrapper WRAPPER_AD = Some ?wr"
    by (simp add: WRAPPER_AD_def)
  have uri: "vastAdTagURI ?wr \<noteq> []"
    by simp
  have nested: "fetchAndParse defaultParserConfig wrapperThenInline (vastAdTagURI ?wr) (Suc 0)
      = Inr SIMPLE_VAST"
    by (simp add: fixtures fetchWithTimeout_def parseXml_def hasAdTagURI_def)
  have inl: "SIMPLE_AD \<in> set (VASTResponse.ads SIMPLE_VAST)"
    by (simp add: SIMPLE_VAST_def)
  from wrapper_merge[OF w uri nested] inl
  have r: "resolveWrapper defaultParserConfig wrapperThenInline WRAPPER_AD (Suc 0)
      = Inr (map (mergeWrapperTracking WRAPPER_AD) (VASTResponse.ads SIMPLE_VAST))"
    and i: "impressions (mergeWrapperTracking WRAPPER_AD SIMPLE_AD)
      = impressions WRAPPER_AD @ impressions SIMPLE_AD"
    and t: "firstLinear (Ad.creatives (mergeWrapperTracking WRAPPER_AD SIMPLE_AD))
      = map_option (\<lambda>l. l\<lparr> Linear.trackingEvents :=
                              getWrapperTrackingEvents WRAPPER_AD @ Linear.trackingEvents l \<rparr>)
          (firstLinear (Ad.creatives SIMPLE_AD))"
    by blast+
  from r have r': "resolveWrapper defaultParserConfig wrapperThenInline WRAPPER_AD (Suc 0)
      = Inr [mergeWrapperTracking WRAPPER_AD SIMPLE_AD]"
    by (simp add: SIMPLE_VAST_def)
  from i have i': "map Impression.url (impressions (mergeWrapperTracking WRAPPER_AD SIMPLE_AD))
     = [''https://example.com/wrapper-impression'', ''https://example.com/impression'']"
    by (simp add: WRAPPER_AD_def SIMPLE_AD_def)
  from t have t': "map_option (map TrackingEvent.url \<circ> Linear.trackingEvents)
        (firstLinear (Ad.creatives (mergeWrapperTracking WRAPPER_AD SIMPLE_AD)))
     = Some [''https://example.com/wrapper-start'', ''https://example.com/start'',
             ''https://example.com/complete'']"
    by (simp add: WRAPPER_AD_def SIMPLE_AD_def SIMPLE_LINEAR_def getWrapperTrackingEvents_def)
  from w nested r' i' t' show ?thesis by simp
qed

lemma resolveAds_plain:
  "list_all (\<lambda>ad. \<not> hasAdTagURI ad) as \<Longrightarrow> resolveAds cfg f as d = Inr (map (\<lambda>a. [a]) as)"
  by (induction as) auto

lemma fetchAndParse_limit:
  "VASTParserConfig.maxWrapperDepth cfg \<le> d \<Longrightarrow> fetchAndParse cfg f u d = Inl (limitExceeded cfg)"
  by simp

lemma chain_succeeds:
  "wrapperChain f u n \<Longrightarrow> d + n < VASTParserConfig.maxWrapperDepth cfg \<Longrightarrow>
   \<exists>r. fetchAndParse cfg f u d = Inr r"
proof (induction n arbitrary: u d)
  case 0
  then show ?case
    by (auto simp: fetchWithTimeout_def parseXml_def resolveAds_plain
             split: fetched.splits xml_body.splits)
next
  case (Suc n)
  from Suc.prems(1) obtain st tx doc ad w where
    fu: "f u = Resolves True st tx (Vast doc)" and ads: "VASTResponse.ads doc = [ad]"
    and w: "wrapper ad = Some w" and uri: "vastAdTagURI w \<noteq> []"
    and rest: "wrapperChain f (vastAdTagURI w) n"
    by (auto split: fetched.splits xml_body.splits list.splits option.splits)
  from Suc.prems(2) have "Suc d + n < VASTParserConfig.maxWrapperDepth cfg" by simp
  from Suc.IH[OF rest this] obtain r where r: "fetchAndParse cfg f (vastAdTagURI w) (Suc d) = Inr r"
    by blast
  have dlt: "\<not> VASTParserConfig.maxWrapperDepth cfg \<le> d" using Suc.prems(2) by simp
  have "resolveWrapper cfg f ad (Suc d) = Inr (map (mergeWrapperTracking ad) (VASTResponse.ads r))"
    using w uri r by simp
  then have "resolveAds cfg f [ad] d = Inr [map (mergeWrapperTracking ad) (VASTResponse.ads r)]"
    using w uri by (simp add: hasAdTagURI_def)
  then show ?case
    using dlt fu ads by (simp add: fetchWithTimeout_def parseXml_def)
qed

lemma chain_hits_limit:
  "wrapperChain f u n \<Longrightarrow> withoutFallback f u n \<Longrightarrow> VASTParserConfig.maxWrapperDepth cfg \<le> d + n \<Longrightarrow>
   fetchAndParse cfg f u d = Inl (limitExceeded cfg)"
proof (induction n arbitrary: u d)
  case 0
  then show ?case by simp
next
  case (Suc n)
  show ?case
  proof (cases "VASTParserConfig.maxWrapperDepth cfg \<le> d")
    case True
    then show ?thesis by simp
  next
    case False
    from Suc.prems(1) obtain st tx doc ad w where
      fu: "f u = Resolves True st tx (Vast doc)" and ads: "VASTResponse.ads doc = [ad]"
      and w: "wrapper ad = Some w" and uri: "vastAdTagURI w \<noteq> []"
      and rest: "wrapperChain f (vastAdTagURI w) n"
      by (auto split: fetched.splits xml_body.splits list.splits option.splits)
    from Suc.prems(2) fu ads w have nf: "fallbackOnNoAd w \<noteq> Some True"
      and restnf: "withoutFallback f (vastAdTagURI w) n"
      by auto
    from Suc.prems(3) have "VASTParserConfig.maxWrapperDepth cfg \<le> Suc d + n" by simp
    from Suc.IH[OF rest restnf this]
    have r: "fetchAndParse cfg f (vastAdTagURI w) (Suc d) = Inl (limitExceeded cfg)" .
    have "resolveWrapper cfg f ad (Suc d) = Inl (limitExceeded cfg)"
      using w uri r nf by simp
    then have "resolveAds cfg f [ad] d = Inl (limitExceeded cfg)"
      using w uri by (simp add: hasAdTagURI_def)
    then show ?thesis
      using False fu ads by (simp add: fetchWithTimeout_def parseXml_def)
  qed
qed

text \<open>
  C2 (amended). The depth is checked at the entry of every fetch: at a depth that has
  reached \<open>maxWrapperDepth\<close> the fetch fails with the limit error whatever the
  transport would answer. A chain of exactly \<open>maxWrapperDepth\<close> nested wrappers, none of
  which sets \<open>fallbackOnNoAd\<close>, fails with the limit error, and a chain of
  \<open>maxWrapperDepth - 1\<close> nested wrappers succeeds.
\<close>

theorem wrapper_depth_limit:
  "(VASTParserConfig.maxWrapperDepth cfg \<le> d \<longrightarrow>
      (\<forall>g. fetchAndParse cfg g u d = Inl (limitExceeded cfg)))
   \<and> (wrapperChain f u n \<and> withoutFallback f u n \<and> n = VASTParserConfig.maxWrapperDepth cfg \<longrightarrow>
        parse cfg f u
        = \<lparr> success = False, response = None,
            error = Some \<lparr> ParseError.code = GENERAL_WRAPPER_ERROR,
                           message = ''Wrapper limit exceeded (max: '' @ nat_toString n @ '')'' \<rparr> \<rparr>)
   \<and> (wrapperChain f u n \<and> Suc n = VASTParserConfig.maxWrapperDepth cfg \<longrightarrow>
        success (parse cfg f u) \<and> (\<exists>r. response (parse cfg f u) = Some r))"
proof -
  have a: "fetchAndParse cfg g u d = Inl (limitExceeded cfg)"
    if "VASTParserConfig.maxWrapperDepth cfg \<le> d" for g
    using that by simp
  have b: "parse cfg f u
        = \<lparr> success = False, response = None,
            error = Some \<lparr> ParseError.code = GENERAL_WRAPPER_ERROR,
                           message = ''Wrapper limit exceeded (max: '' @ nat_toString n @ '')'' \<rparr> \<rparr>"
    if "wrapperChain f u n" "withoutFallback f u n" "n = VASTParserConfig.maxWrapperDepth cfg"
  proof -
    have "fetchAndParse cfg f u 0 = Inl (limitExceeded cfg)"
      using that by (intro chain_hits_limit[of f u n]) simp_all
    then show ?thesis using that(3) by (simp add: parse_def limitExceeded_def)
  qed
  have c: "success (parse cfg f u) \<and> (\<exists>r. response (parse cfg f u) = Some r)"
    if "wrapperChain f u n" "Suc n = VASTParserConfig.maxWrapperDepth cfg"
  proof -
    have "0 + n < VASTParserConfig.maxWrapperDepth cfg" using that(2) by simp
    from chain_succeeds[OF that(1) this] obtain r where "fetchAndParse cfg f u 0 = Inr r" by blast
    then show ?thesis by (simp add: parse_def)
  qed
  from a b c show ?thesis by blast
qed

theorem wrapper_depth_limit_witness:
  "wrapperChain wrapperThenInline ''https://example.com/wrapper.xml'' (Suc 0)
   \<and> withoutFallback wrapperThenInline ''https://example.com/wrapper.xml'' (Suc 0)
   \<and> parse \<lparr> VASTParserConfig.maxWrapperDepth = Suc 0, timeout = 10000, debug = False \<rparr>
         wrapperThenInline ''https://example.com/wrapper.xml''
     = \<lparr> success = False, response = None,
         error = Some \<lparr> ParseError.code = GENERAL_WRAPPER_ERROR,
                        message = ''Wrapper limit exceeded (max: 1)'' \<rparr> \<rparr>
   \<and> success (parse \<lparr> VASTParserConfig.maxWrapperDepth = Suc (Suc 0), timeout = 10000, debug = False \<rparr>
                wrapperThenInline ''https://example.com/wrapper.xml'')
   \<and> fetchAndParse \<lparr> VASTParserConfig.maxWrapperDepth = Suc 0, timeout = 10000, debug = False \<rparr>
         wrapperThenInline ''https://example.com/wrapper.xml'' (Suc 0)
     = Inl (JsError ''Wrapper limit exceeded (max: 1)'')"
proof -
  let ?u = "''https://example.com/wrapper.xml''"
  let ?c1 = "\<lparr> VASTParserConfig.maxWrapperDepth = Suc 0, timeout = 10000, debug = False \<rparr>"
  let ?c2 = "\<lparr> VASTParserConfig.maxWrapperDepth = Suc (Suc 0), timeout = 10000, debug = False \<rparr>"
  have chain: "wrapperChain wrapperThenInline ?u (Suc 0)"
    by (simp add: fixtures hasAdTagURI_def)
  have nofb: "withoutFallback wrapperThenInline ?u (Suc 0)"
    by (simp add: fixtures)
  have m1: "Suc 0 = VASTParserConfig.maxWrapperDepth ?c1"
    and m2: "Suc (Suc 0) = VASTParserConfig.maxWrapperDepth ?c2"
    and m3: "VASTParserConfig.maxWrapperDepth ?c1 \<le> Suc 0"
    by simp_all
  have digits: "nat_toString (Suc 0) = ''1''"
    by code_simp
  from wrapper_depth_limit[of ?c1 "Suc 0" ?u wrapperThenInline "Suc 0"] chain nofb m1 m3
  have a: "fetchAndParse ?c1 wrapperThenInline ?u (Suc 0) = Inl (limitExceeded ?c1)"
    and b: "parse ?c1 wrapperThenInline ?u
        = \<lparr> success = False, response = None,
            error = Some \<lparr> ParseError.code = GENERAL_WRAPPER_ERROR,
                           message = ''Wrapper limit exceeded (max: '' @ nat_toString (Suc 0) @ '')'' \<rparr> \<rparr>"
    by blast+
  from wrapper_depth_limit[of ?c2 0 ?u wrapperThenInline "Suc 0"] chain m2
  have c: "success (parse ?c2 wrapperThenInline ?u)"
    by blast
  from a have a': "fetchAndParse ?c1 wrapperThenInline ?u (Suc 0)
      = Inl (JsError ''Wrapper limit exceeded (max: 1)'')"
    by (simp add: limitExceeded_def digits del: nat_toString.simps)
  from b have b': "parse ?c1 wrapperThenInline ?u
        = \<lparr> success = False, response = None,
            error = Some \<lparr> ParseError.code = GENERAL_WRAPPER_ERROR,
                           message = ''Wrapper limit exceeded (max: 1)'' \<rparr> \<rparr>"
    by (simp add: digits del: nat_toString.simps)
  from chain nofb a' b' c show ?thesis by blast
qed


text \<open>
  The claim as it is written fails for a wrapper that sets \<open>fallbackOnNoAd\<close>: with a
  limit of one, the chain of one such wrapper resolves, to no ads, instead of failing.
\<close>

theorem parse_chain_fallback_counterexample:
  "wrapperChain fallbackWrapperThenInline ''https://example.com/wrapper.xml'' (Suc 0)
   \<and> parse \<lparr> VASTParserConfig.maxWrapperDepth = Suc 0, timeout = 10000, debug = False \<rparr>
         fallbackWrapperThenInline ''https://example.com/wrapper.xml''
     = \<lparr> success = True,
         response = Some \<lparr> version = ''4.0'', ads = [], errors = [] \<rparr>,
         error = None \<rparr>"
  by (simp add: fixtures parse_def fetchWithTimeout_def parseXml_def hasAdTagURI_def
        limitExceeded_def)


lemma resolveAds_ok_iff:
  "(\<exists>rs. resolveAds cfg f as d = Inr rs)
   \<longleftrightarrow> (\<forall>ad \<in> set as. hasAdTagURI ad \<longrightarrow> (\<exists>r. resolveWrapper cfg f ad (Suc d) = Inr r))"
proof (induction as)
  case Nil
  then show ?case by simp
next
  case (Cons a as)
  show ?case
  proof (cases "hasAdTagURI a")
    case False
    with Cons.IH show ?thesis by (auto split: sum.splits)
  next
    case True
    show ?thesis
    proof (cases "resolveWrapper cfg f a (Suc d)")
      case (Inl e)
      with True show ?thesis by auto
    next
      case (Inr r)
      with True Cons.IH show ?thesis by (auto split: sum.splits)
    qed
  qed
qed

lemma fetchAndParse_ok_iff:
  "(\<exists>r. fetchAndParse cfg f u d = Inr r)
   \<longleftrightarrow> d < VASTParserConfig.maxWrapperDepth cfg
       \<and> (\<exists>st tx doc. f u = Resolves True st tx (Vast doc)
            \<and> (\<forall>ad \<in> set (VASTResponse.ads doc).
                  hasAdTagURI ad \<longrightarrow> (\<exists>r. resolveWrapper cfg f ad (Suc d) = Inr r)))"
proof (cases "d < VASTParserConfig.maxWrapperDepth cfg")
  case False
  then show ?thesis by simp
next
  case True
  then have lt: "\<not> VASTParserConfig.maxWrapperDepth cfg \<le> d" by simp
  show ?thesis
  proof (cases "f u")
    case (Rejects e)
    with lt show ?thesis by (simp add: fetchWithTimeout_def)
  next
    case (Resolves ok st tx b)
    show ?thesis
    proof (cases b)
      case (XmlThrows e)
      with lt Resolves show ?thesis by (simp add: fetchWithTimeout_def parseXml_def)
    next
      case NoVast
      with lt Resolves show ?thesis by (simp add: fetchWithTimeout_def parseXml_def)
    next
      case (Vast doc)
      show ?thesis
      proof (cases ok)
        case False
        with lt Resolves show ?thesis by (simp add: fetchWithTimeout_def)
      next
        case True
        have "(\<exists>r. fetchAndParse cfg f u d = Inr r)
              \<longleftrightarrow> (\<exists>rs. resolveAds cfg f (VASTResponse.ads doc) d = Inr rs)"
          using lt Resolves Vast True
          by (auto simp: fetchWithTimeout_def parseXml_def split: sum.splits)
        then show ?thesis
          using lt Resolves Vast True \<open>d < VASTParserConfig.maxWrapperDepth cfg\<close>
          by (simp add: resolveAds_ok_iff)
      qed
    qed
  qed
qed

lemma parse_success_iff: "success (parse cfg f u) \<longleftrightarrow> (\<exists>r. fetchAndParse cfg f u 0 = Inr r)"
  by (simp add: parse_def split: sum.splits)

lemma fetchAndParse_causes:
  assumes "d < VASTParserConfig.maxWrapperDepth cfg"
  shows "f u = Rejects e \<Longrightarrow> fetchAndParse cfg f u d = Inl e"
    and "f u = Resolves False st tx b \<Longrightarrow>
           fetchAndParse cfg f u d = Inl (JsError (''HTTP '' @ nat_toString st @ '': '' @ tx))"
    and "f u = Resolves True st tx (XmlThrows e) \<Longrightarrow> fetchAndParse cfg f u d = Inl e"
    and "f u = Resolves True st tx NoVast \<Longrightarrow>
           fetchAndParse cfg f u d = Inl (JsError ''Invalid VAST: missing VAST element'')"
  using assms by (simp_all add: fetchWithTimeout_def parseXml_def del: nat_toString.simps)

lemma nested_failure:
  assumes depth: "0 < VASTParserConfig.maxWrapperDepth cfg"
    and root: "f u = Resolves True st tx (Vast doc)"
    and ad: "ad \<in> set (VASTResponse.ads doc)"
    and w: "wrapper ad = Some w" and uri: "vastAdTagURI w \<noteq> []"
    and nofb: "fallbackOnNoAd w \<noteq> Some True"
    and nested: "fetchAndParse cfg f (vastAdTagURI w) (Suc 0) = Inl e"
  shows "\<not> success (parse cfg f u)"
proof
  assume "success (parse cfg f u)"
  then have "\<exists>r. fetchAndParse cfg f u 0 = Inr r" by (simp add: parse_success_iff)
  then obtain st' tx' doc' where r': "f u = Resolves True st' tx' (Vast doc')"
    and all: "\<forall>ad \<in> set (VASTResponse.ads doc').
                hasAdTagURI ad \<longrightarrow> (\<exists>r. resolveWrapper cfg f ad (Suc 0) = Inr r)"
    unfolding fetchAndParse_ok_iff by blast
  from root r' have "doc' = doc" by simp
  moreover have "hasAdTagURI ad" using w uri by (simp add: hasAdTagURI_def)
  ultimately obtain r where "resolveWrapper cfg f ad (Suc 0) = Inr r" using all ad by blast
  moreover have "resolveWrapper cfg f ad (Suc 0) = Inl e" using w uri nofb nested by simp
  ultimately show False by simp
qed

lemma parse_failure: "fetchAndParse cfg f u 0 = Inl (JsError m) \<Longrightarrow> parse cfg f u = failure m"
  by (simp add: parse_def failure_def del: fetchAndParse.simps)

text \<open>
  C10. A resolution succeeds exactly when the limit is positive, the root URL answers ok
  with a VAST document and every wrapper ad of it resolves. Every other outcome is returned
  as a failure result, whose code is always \<open>GENERAL_WRAPPER_ERROR\<close>, 300: a rejected
  fetch (a network error, or the abort of the timeout), a status that is not ok, an XML
  library that throws, a missing root element, the depth limit (at the root, or at the end
  of a chain of wrappers without fallback) and a wrapper without fallback whose nested
  document fails. The causes differ in the message only.
\<close>

theorem parse_failure_results:
  "(success (parse cfg f u) \<longleftrightarrow>
      0 < VASTParserConfig.maxWrapperDepth cfg
      \<and> (\<exists>st tx doc. f u = Resolves True st tx (Vast doc)
           \<and> (\<forall>ad \<in> set (VASTResponse.ads doc).
                 hasAdTagURI ad \<longrightarrow> (\<exists>r. resolveWrapper cfg f ad (Suc 0) = Inr r))))
   \<and> (\<not> success (parse cfg f u) \<longrightarrow> (\<exists>m. parse cfg f u = failure m))
   \<and> ParseResult.error (failure m)
       = Some \<lparr> ParseError.code = GENERAL_WRAPPER_ERROR, message = m \<rparr>
   \<and> errorCodeNumber GENERAL_WRAPPER_ERROR = 300
   \<and> (0 < VASTParserConfig.maxWrapperDepth cfg \<and> f u = Rejects (JsError m)
        \<longrightarrow> parse cfg f u = failure m)
   \<and> (0 < VASTParserConfig.maxWrapperDepth cfg \<and> f u = Rejects NonError
        \<longrightarrow> parse cfg f u = failure ''Unknown error'')
   \<and> (0 < VASTParserConfig.maxWrapperDepth cfg \<and> f u = Resolves False st tx b
        \<longrightarrow> parse cfg f u = failure (''HTTP '' @ nat_toString st @ '': '' @ tx))
   \<and> (0 < VASTParserConfig.maxWrapperDepth cfg \<and> f u = Resolves True st tx (XmlThrows (JsError m))
        \<longrightarrow> parse cfg f u = failure m)
   \<and> (0 < VASTParserConfig.maxWrapperDepth cfg \<and> f u = Resolves True st tx NoVast
        \<longrightarrow> parse cfg f u = failure ''Invalid VAST: missing VAST element'')
   \<and> (VASTParserConfig.maxWrapperDepth cfg = 0
        \<longrightarrow> parse cfg f u = failure ''Wrapper limit exceeded (max: 0)'')
   \<and> (wrapperChain f u n \<and> withoutFallback f u n \<and> VASTParserConfig.maxWrapperDepth cfg \<le> n
        \<longrightarrow> parse cfg f u
            = failure (''Wrapper limit exceeded (max: ''
                       @ nat_toString (VASTParserConfig.maxWrapperDepth cfg) @ '')''))
   \<and> (0 < VASTParserConfig.maxWrapperDepth cfg \<and> f u = Resolves True st tx (Vast doc)
        \<and> ad \<in> set (VASTResponse.ads doc) \<and> wrapper ad = Some w \<and> vastAdTagURI w \<noteq> []
        \<and> fallbackOnNoAd w \<noteq> Some True
        \<and> fetchAndParse cfg f (vastAdTagURI w) (Suc 0) = Inl e
        \<longrightarrow> \<not> success (parse cfg f u))"
proof -
  let ?max = "VASTParserConfig.maxWrapperDepth cfg"
  have iff: "success (parse cfg f u) \<longleftrightarrow>
      0 < ?max
      \<and> (\<exists>st tx doc. f u = Resolves True st tx (Vast doc)
           \<and> (\<forall>ad \<in> set (VASTResponse.ads doc).
                 hasAdTagURI ad \<longrightarrow> (\<exists>r. resolveWrapper cfg f ad (Suc 0) = Inr r)))"
    unfolding parse_success_iff by (rule fetchAndParse_ok_iff)
  have any: "\<exists>m. parse cfg f u = failure m" if "\<not> success (parse cfg f u)"
  proof (cases "fetchAndParse cfg f u 0")
    case (Inl e)
    then show ?thesis by (simp add: parse_def failure_def del: fetchAndParse.simps)
  next
    case (Inr r)
    with that show ?thesis by (simp add: parse_def del: fetchAndParse.simps)
  qed
  have code: "ParseResult.error (failure m)
       = Some \<lparr> ParseError.code = GENERAL_WRAPPER_ERROR, message = m \<rparr>"
    by (simp add: failure_def)
  have c1: "parse cfg f u = failure m" if "0 < ?max" "f u = Rejects (JsError m)"
    by (rule parse_failure) (rule fetchAndParse_causes(1)[where f=f and u=u, OF that])
  have c2: "parse cfg f u = failure ''Unknown error''" if "0 < ?max" "f u = Rejects NonError"
    using fetchAndParse_causes(1)[where f=f and u=u, OF that]
    by (simp add: parse_def failure_def del: fetchAndParse.simps)
  have c3: "parse cfg f u = failure (''HTTP '' @ nat_toString st @ '': '' @ tx)"
    if "0 < ?max" "f u = Resolves False st tx b"
    by (rule parse_failure) (rule fetchAndParse_causes(2)[where f=f and u=u, OF that])
  have c4: "parse cfg f u = failure m" if "0 < ?max" "f u = Resolves True st tx (XmlThrows (JsError m))"
    by (rule parse_failure) (rule fetchAndParse_causes(3)[where f=f and u=u, OF that])
  have c5: "parse cfg f u = failure ''Invalid VAST: missing VAST element''"
    if "0 < ?max" "f u = Resolves True st tx NoVast"
    by (rule parse_failure) (rule fetchAndParse_causes(4)[where f=f and u=u, OF that])
  have c6: "parse cfg f u = failure ''Wrapper limit exceeded (max: 0)''" if "?max = 0"
    using that by (simp add: parse_def failure_def limitExceeded_def digit_char_def)
  have c7: "parse cfg f u
            = failure (''Wrapper limit exceeded (max: '' @ nat_toString ?max @ '')'')"
    if "wrapperChain f u n" "withoutFallback f u n" "?max \<le> n"
  proof -
    have "fetchAndParse cfg f u 0 = Inl (limitExceeded cfg)"
      using that by (intro chain_hits_limit[of f u n]) simp_all
    then show ?thesis unfolding limitExceeded_def by (rule parse_failure)
  qed
  have c8: "\<not> success (parse cfg f u)"
    if "0 < ?max" "f u = Resolves True st tx (Vast doc)" "ad \<in> set (VASTResponse.ads doc)"
      "wrapper ad = Some w" "vastAdTagURI w \<noteq> []" "fallbackOnNoAd w \<noteq> Some True"
      "fetchAndParse cfg f (vastAdTagURI w) (Suc 0) = Inl e"
    using that by (rule nested_failure)
  have num: "errorCodeNumber GENERAL_WRAPPER_ERROR = 300" by simp
  show ?thesis
    apply (intro conjI impI)
    subgoal by (rule iff)
    subgoal by (rule any)
    subgoal by (rule code)
    subgoal by (rule num)
    subgoal by (erule conjE) (rule c1)
    subgoal by (erule conjE) (rule c2)
    subgoal by (erule conjE) (rule c3)
    subgoal by (erule conjE) (rule c4)
    subgoal by (erule conjE) (rule c5)
    subgoal by (rule c6)
    subgoal by (elim conjE) (rule c7)
    subgoal by (elim conjE) (rule c8)
    done
qed

theorem parse_failure_results_witness:
  "parse defaultParserConfig networkError ''https://example.com/vast.xml'' = failure ''Network error''
   \<and> parse defaultParserConfig aborted ''https://example.com/vast.xml'' = failure ''Aborted''
   \<and> parse defaultParserConfig notFound ''https://example.com/vast.xml''
       = failure ''HTTP 404: Not Found''
   \<and> parse defaultParserConfig notVast ''https://example.com/vast.xml''
       = failure ''Invalid VAST: missing VAST element''
   \<and> parse \<lparr> VASTParserConfig.maxWrapperDepth = Suc 0, timeout = 10000, debug = False \<rparr>
         wrapperThenInline ''https://example.com/wrapper.xml''
       = failure ''Wrapper limit exceeded (max: 1)''
   \<and> \<not> success (parse defaultParserConfig notFound ''https://example.com/vast.xml'')
   \<and> ParseResult.error (failure ''HTTP 404: Not Found'')
       = Some \<lparr> ParseError.code = GENERAL_WRAPPER_ERROR, message = ''HTTP 404: Not Found'' \<rparr>
   \<and> errorCodeNumber GENERAL_WRAPPER_ERROR = 300"
proof -
  let ?u = "''https://example.com/vast.xml''"
  let ?w = "''https://example.com/wrapper.xml''"
  let ?c1 = "\<lparr> VASTParserConfig.maxWrapperDepth = Suc 0, timeout = 10000, debug = False \<rparr>"
  have pos: "0 < VASTParserConfig.maxWrapperDepth defaultParserConfig"
    by (simp add: defaultParserConfig_def)
  have n: "networkError ?u = Rejects (JsError ''Network error'')"
    and a: "aborted ?u = Rejects (JsError ''Aborted'')"
    and h: "notFound ?u = Resolves False 404 ''Not Found'' NoVast"
    and x: "notVast ?u = Resolves True 200 ''OK'' NoVast"
    by (simp_all add: networkError_def aborted_def notFound_def notVast_def)
  have chain: "wrapperChain wrapperThenInline ?w (Suc 0)"
    by (simp add: fixtures hasAdTagURI_def)
  have nofb: "withoutFallback wrapperThenInline ?w (Suc 0)"
    by (simp add: fixtures)
  have le: "VASTParserConfig.maxWrapperDepth ?c1 \<le> Suc 0"
    by simp
  have d404: "nat_toString 404 = ''404''" and d1: "nat_toString (Suc 0) = ''1''"
    by code_simp+
  from parse_failure_results[where cfg = defaultParserConfig and f = networkError and u = ?u
      and m = "''Network error''"] pos n
  have r1: "parse defaultParserConfig networkError ?u = failure ''Network error''"
    by blast
  from parse_failure_results[where cfg = defaultParserConfig and f = aborted and u = ?u
      and m = "''Aborted''"] pos a
  have r2: "parse defaultParserConfig aborted ?u = failure ''Aborted''"
    by blast
  from parse_failure_results[where cfg = defaultParserConfig and f = notFound and u = ?u
      and st = 404 and tx = "''Not Found''" and b = NoVast and m = "''HTTP 404: Not Found''"] pos h
  have r3: "parse defaultParserConfig notFound ?u
        = failure (''HTTP '' @ nat_toString 404 @ '': '' @ ''Not Found'')"
    and code: "ParseResult.error (failure ''HTTP 404: Not Found'')
       = Some \<lparr> ParseError.code = GENERAL_WRAPPER_ERROR, message = ''HTTP 404: Not Found'' \<rparr>"
    and num: "errorCodeNumber GENERAL_WRAPPER_ERROR = 300"
    by blast+
  from r3 have r3': "parse defaultParserConfig notFound ?u = failure ''HTTP 404: Not Found''"
    by (simp add: d404 del: nat_toString.simps)
  then have fails: "\<not> success (parse defaultParserConfig notFound ?u)"
    by (simp add: failure_def)
  from parse_failure_results[where cfg = defaultParserConfig and f = notVast and u = ?u
      and st = 200 and tx = "''OK''"] pos x
  have r4: "parse defaultParserConfig notVast ?u = failure ''Invalid VAST: missing VAST element''"
    by blast
  from parse_failure_results[where cfg = ?c1 and f = wrapperThenInline and u = ?w and n = "Suc 0"]
    chain nofb le
  have r5: "parse ?c1 wrapperThenInline ?w
        = failure (''Wrapper limit exceeded (max: ''
                   @ nat_toString (VASTParserConfig.maxWrapperDepth ?c1) @ '')'')"
    by blast
  then have r5': "parse ?c1 wrapperThenInline ?w = failure ''Wrapper limit exceeded (max: 1)''"
    by (simp add: d1 del: nat_toString.simps)
  from r1 r2 r3' r4 r5' fails code num show ?thesis by blast
qed

section \<open>The tracker\<close>

lemma group_foldl:
  "foldl (\<lambda>m ev. m(event ev \<mapsto> (case m (event ev) of Some l \<Rightarrow> l | None \<Rightarrow> []) @ [ev])) m events e
   = (if filter (\<lambda>ev. event ev = e) events = [] then m e
      else Some ((case m e of Some l \<Rightarrow> l | None \<Rightarrow> []) @ filter (\<lambda>ev. event ev = e) events))"
  by (induction events arbitrary: m) (auto split: option.splits)

lemma groupEventsByType_lookup:
  "groupEventsByType events e
   = (if filter (\<lambda>ev. event ev = e) events = [] then None
      else Some (filter (\<lambda>ev. event ev = e) events))"
  unfolding groupEventsByType_def by (simp add: group_foldl)

lemma eventKey_inj: "eventKey e u = eventKey e v \<longleftrightarrow> u = v"
  by (simp add: eventKey_def)

lemma trackEvents_always:
  "trackEvents e False evs (tr, fired)
   = (tr, fired @ map (\<lambda>ev. \<lparr> origin = Tracking e, template = TrackingEvent.url ev,
                               used_context = macroContext tr \<rparr>) evs)"
  by (induction evs arbitrary: fired) auto

lemma trackEvents_once:
  "trackEvents e True evs (tr, fired)
   = (tr\<lparr> firedEvents := firedEvents tr \<union> eventKey e ` set (map TrackingEvent.url evs) \<rparr>,
      fired @ map (\<lambda>u. \<lparr> origin = Tracking e, template = u, used_context = macroContext tr \<rparr>)
                  (unfired e (firedEvents tr) (map TrackingEvent.url evs)))"
proof (induction evs arbitrary: tr fired)
  case Nil
  then show ?case by simp
next
  case (Cons ev evs)
  show ?case
  proof (cases "eventKey e (TrackingEvent.url ev) \<in> firedEvents tr")
    case True
    then have "firedEvents tr \<union> eventKey e ` set (map TrackingEvent.url (ev # evs))
             = firedEvents tr \<union> eventKey e ` set (map TrackingEvent.url evs)"
      by auto
    with True Cons.IH[of tr fired] show ?thesis by simp
  next
    case False
    then show ?thesis
      by (simp add: Cons.IH Un_commute insert_commute)
  qed
qed


lemma unfired_fresh:
  "distinct us \<Longrightarrow> \<forall>u \<in> set us. eventKey e u \<notin> F \<Longrightarrow> unfired e F us = us"
proof (induction us arbitrary: F)
  case Nil
  then show ?case by simp
next
  case (Cons a us)
  have "\<forall>u \<in> set us. eventKey e u \<notin> insert (eventKey e a) F"
    using Cons.prems by (auto simp: eventKey_inj)
  with Cons.IH[of "insert (eventKey e a) F"] Cons.prems show ?case by simp
qed

lemma count_list_distinct: "distinct xs \<Longrightarrow> x \<in> set xs \<Longrightarrow> count_list xs x = 1"
  by (induction xs) auto

lemma unfired_all_fired:
  "\<forall>u \<in> set us. eventKey e u \<in> F \<Longrightarrow> unfired e F us = []"
  by (induction us arbitrary: F) auto

lemma count_unfired:
  "count_list (unfired e F us) u = (if u \<in> set us \<and> eventKey e u \<notin> F then 1 else 0)"
  by (induction us arbitrary: F) (auto simp: eventKey_inj)

lemma track_registered:
  assumes "trackingEvents tr = groupEventsByType events"
  shows "track e once tr
   = trackEvents e once (filter (\<lambda>ev. event ev = e) events) (tr, [])"
  using assms by (simp add: track_def groupEventsByType_lookup)

lemma track_always:
  assumes "trackingEvents tr = groupEventsByType events"
  shows "track e False tr
   = (tr, map (\<lambda>u. \<lparr> origin = Tracking e, template = u, used_context = macroContext tr \<rparr>)
              (registeredUrls events e))"
  by (simp add: track_registered[OF assms] trackEvents_always registeredUrls_def comp_def)

lemma track_once:
  assumes "trackingEvents tr = groupEventsByType events"
  shows "track e True tr
   = (tr\<lparr> firedEvents := firedEvents tr \<union> eventKey e ` set (registeredUrls events e) \<rparr>,
      map (\<lambda>u. \<lparr> origin = Tracking e, template = u, used_context = macroContext tr \<rparr>)
          (unfired e (firedEvents tr) (registeredUrls events e)))"
  by (simp add: track_registered[OF assms] trackEvents_once registeredUrls_def)

text \<open>
  C1 (amended). For a tracker built from an event list, with nothing fired yet, and every
  event type: two calls of \<open>track\<close> with \<open>once\<close> fire each URL registered for the type
  exactly once (and nothing else); two calls without \<open>once\<close> fire the registered URLs
  twice over, so each URL twice for each time it is registered (twice when it is
  registered once), leave the fired set as it is and fire the same whatever the fired set
  holds; and after the two calls with \<open>once\<close> and a \<open>reset\<close>, a call with \<open>once\<close> fires
  each registered URL exactly once again.
\<close>

theorem track_once_semantics:
  assumes built: "trackingEvents tr = groupEventsByType events"
    and fresh: "firedEvents tr = {}"
  shows "(\<forall>u. count_list (map template (snd (track e True tr)
                                          @ snd (track e True (fst (track e True tr))))) u
              = (if u \<in> set (registeredUrls events e) then 1 else 0))
       \<and> map template (snd (track e False tr) @ snd (track e False (fst (track e False tr))))
           = registeredUrls events e @ registeredUrls events e
       \<and> (\<forall>u. count_list (map template (snd (track e False tr)
                                          @ snd (track e False (fst (track e False tr))))) u
              = 2 * count_list (registeredUrls events e) u)
       \<and> (\<forall>F. fst (track e False (tr\<lparr> firedEvents := F \<rparr>)) = tr\<lparr> firedEvents := F \<rparr>
              \<and> snd (track e False (tr\<lparr> firedEvents := F \<rparr>)) = snd (track e False tr))
       \<and> (\<forall>u. count_list (map template
                   (snd (track e True (reset (fst (track e True (fst (track e True tr)))))))) u
              = (if u \<in> set (registeredUrls events e) then 1 else 0))"
proof -
  let ?urls = "registeredUrls events e"
  let ?t1 = "fst (track e True tr)"
  let ?t2 = "fst (track e True ?t1)"
  have b1: "trackingEvents ?t1 = groupEventsByType events"
    by (simp add: track_once[OF built] built)
  have f1: "firedEvents ?t1 = eventKey e ` set ?urls"
    by (simp add: track_once[OF built] fresh)
  have p1: "map template (snd (track e True tr)) = unfired e {} ?urls"
    by (simp add: track_once[OF built] fresh comp_def)
  have p2: "snd (track e True ?t1) = []"
    by (simp add: track_once[OF b1] f1 unfired_all_fired)
  have once: "count_list (map template (snd (track e True tr) @ snd (track e True ?t1))) u
      = (if u \<in> set ?urls then 1 else 0)" for u
    by (simp add: p1 p2 count_unfired)
  have b2: "trackingEvents ?t2 = groupEventsByType events"
    by (simp add: track_once[OF b1] b1)
  have b3: "trackingEvents (reset ?t2) = groupEventsByType events"
    using b2 by (simp add: reset_def)
  have f3: "firedEvents (reset ?t2) = {}"
    by (simp add: reset_def)
  have p3: "map template (snd (track e True (reset ?t2))) = unfired e {} ?urls"
    by (simp add: track_once[OF b3] f3 comp_def)
  have again: "count_list (map template (snd (track e True (reset ?t2)))) u
      = (if u \<in> set ?urls then 1 else 0)" for u
    by (simp add: p3 count_unfired)
  have twice: "map template (snd (track e False tr) @ snd (track e False (fst (track e False tr))))
      = ?urls @ ?urls"
    by (simp add: track_always[OF built] comp_def)
  have indep: "fst (track e False (tr\<lparr> firedEvents := F \<rparr>)) = tr\<lparr> firedEvents := F \<rparr>
      \<and> snd (track e False (tr\<lparr> firedEvents := F \<rparr>)) = snd (track e False tr)" for F
  proof -
    have "trackingEvents (tr\<lparr> firedEvents := F \<rparr>) = groupEventsByType events"
      using built by simp
    from track_always[OF this] track_always[OF built] show ?thesis by simp
  qed
  show ?thesis
    unfolding twice using once again indep by simp
qed

lemma registered_twice:
  "registeredUrls [\<lparr> event = ''start'', url = ''https://example.com/start'', offset = None \<rparr>,
                   \<lparr> event = ''start'', url = ''https://example.com/start'', offset = None \<rparr>] ''start''
   = [''https://example.com/start'', ''https://example.com/start'']"
  by (simp add: registeredUrls_def)


theorem track_once_semantics_witness:
  "trackingEvents (newAdTracker
     [\<lparr> event = ''start'', url = ''https://example.com/start'', offset = None \<rparr>,
      \<lparr> event = ''start'', url = ''https://example.com/start'', offset = None \<rparr>])
     = groupEventsByType
     [\<lparr> event = ''start'', url = ''https://example.com/start'', offset = None \<rparr>,
      \<lparr> event = ''start'', url = ''https://example.com/start'', offset = None \<rparr>]
   \<and> firedEvents (newAdTracker
     [\<lparr> event = ''start'', url = ''https://example.com/start'', offset = None \<rparr>,
      \<lparr> event = ''start'', url = ''https://example.com/start'', offset = None \<rparr>]) = {}
   \<and> count_list
       (map template
          (snd (track ''start'' True (newAdTracker
     [\<lparr> event = ''start'', url = ''https://example.com/start'', offset = None \<rparr>,
      \<lparr> event = ''start'', url = ''https://example.com/start'', offset = None \<rparr>]))
           @ snd (track ''start'' True (fst (track ''start'' True (newAdTracker
     [\<lparr> event = ''start'', url = ''https://example.com/start'', offset = None \<rparr>,
      \<lparr> event = ''start'', url = ''https://example.com/start'', offset = None \<rparr>]))))))
       ''https://example.com/start'' = 1
   \<and> count_list
       (map template
          (snd (track ''start'' True
                  (reset (fst (track ''start'' True (fst (track ''start'' True (newAdTracker
     [\<lparr> event = ''start'', url = ''https://example.com/start'', offset = None \<rparr>,
      \<lparr> event = ''start'', url = ''https://example.com/start'', offset = None \<rparr>]))))))))) 
       ''https://example.com/start'' = 1"
proof -
  let ?events = "[\<lparr> event = ''start'', url = ''https://example.com/start'', offset = None \<rparr>,
      \<lparr> event = ''start'', url = ''https://example.com/start'', offset = None \<rparr>]"
  let ?tr = "newAdTracker ?events"
  have built: "trackingEvents ?tr = groupEventsByType ?events"
    and fresh: "firedEvents ?tr = {}"
    by (simp_all add: newAdTracker_def)
  have reg: "''https://example.com/start'' \<in> set (registeredUrls ?events ''start'')"
    by (simp add: registered_twice)
  from track_once_semantics[OF built fresh, of "''start''"]
  have once: "\<forall>u. count_list (map template (snd (track ''start'' True ?tr)
                        @ snd (track ''start'' True (fst (track ''start'' True ?tr))))) u
              = (if u \<in> set (registeredUrls ?events ''start'') then 1 else 0)"
    and again: "\<forall>u. count_list (map template
                   (snd (track ''start'' True
                           (reset (fst (track ''start'' True (fst (track ''start'' True ?tr)))))))) u
              = (if u \<in> set (registeredUrls ?events ''start'') then 1 else 0)"
    by blast+
  from once reg have o: "count_list (map template (snd (track ''start'' True ?tr)
                        @ snd (track ''start'' True (fst (track ''start'' True ?tr)))))
              ''https://example.com/start'' = 1"
    by (simp del: track_def)
  from again reg have a: "count_list (map template
                   (snd (track ''start'' True
                           (reset (fst (track ''start'' True (fst (track ''start'' True ?tr))))))))
              ''https://example.com/start'' = 1"
    by (simp del: track_def)
  from built fresh o a show ?thesis by blast
qed

text \<open>
  The claim as it is written fails when a URL is registered twice for the event type: two
  calls without \<open>once\<close> fire it four times.
\<close>

theorem track_duplicate_counterexample:
  "count_list
     (map template
        (snd (track ''start'' False
                (newAdTracker
                   [\<lparr> event = ''start'', url = ''https://example.com/start'', offset = None \<rparr>,
                    \<lparr> event = ''start'', url = ''https://example.com/start'', offset = None \<rparr>]))
         @ snd (track ''start'' False
                  (fst (track ''start'' False
                          (newAdTracker
                             [\<lparr> event = ''start'', url = ''https://example.com/start'', offset = None \<rparr>,
                              \<lparr> event = ''start'', url = ''https://example.com/start'', offset = None \<rparr>]))))))
     ''https://example.com/start'' = 4"
proof -
  let ?events = "[\<lparr> event = ''start'', url = ''https://example.com/start'', offset = None \<rparr>,
                  \<lparr> event = ''start'', url = ''https://example.com/start'', offset = None \<rparr>]"
  have built: "trackingEvents (newAdTracker ?events) = groupEventsByType ?events"
    by (simp add: newAdTracker_def)
  show ?thesis
    by (simp add: track_always[OF built] registered_twice del: track_def)
qed


section \<open>The player\<close>

lemma firedPixels_append: "firedPixels (xs @ ys) = firedPixels xs @ firedPixels ys"
  by (induction xs rule: firedPixels.induct) auto

lemma firedPixels_FirePixel: "firedPixels (map FirePixel ps) = ps"
  by (induction ps) auto

lemma firedPixels_Notify: "firedPixels (map (\<lambda>l. Notify l ev) ls) = []"
  by (induction ls) auto

lemma emit_effects:
  "effects (emit ev p) = effects p @ map (\<lambda>l. Notify l ev) (listeners p)"
  by (simp add: emit_def perform_def)

text \<open>
  C9. \<open>destroy\<close> empties the listener registry before it emits the \<open>destroy\<close> event, so
  the event is handed to nobody: \<open>destroy\<close> adds nothing to what the player has done, and
  a listener that was registered and still subscribed is not notified of it.
\<close>

theorem destroy_not_observed:
  "l \<in> set (listeners p) \<longrightarrow>
     listeners (destroy p) = []
     \<and> effects (destroy p) = effects p
     \<and> Notify l destroy_event \<notin> set (drop (length (effects p)) (effects (destroy p)))"
  by (simp add: destroy_def Let_def emit_def perform_def)

theorem destroy_not_observed_witness:
  "7 \<in> set (listeners (on 7 (newAdPlayer (defaultConfig ''https://example.com/vast.xml''))))
   \<and> effects (destroy (on 7 (newAdPlayer (defaultConfig ''https://example.com/vast.xml'')))) = []
   \<and> Notify 7 destroy_event
       \<in> set (effects (emit destroy_event
                          (on 7 (newAdPlayer (defaultConfig ''https://example.com/vast.xml'')))))"
proof -
  let ?p = "on 7 (newAdPlayer (defaultConfig ''https://example.com/vast.xml''))"
  have reg: "7 \<in> set (listeners ?p)"
    by (simp add: on_def newAdPlayer_def)
  have before: "effects ?p = []"
    by (simp add: on_def newAdPlayer_def)
  have would: "Notify 7 destroy_event \<in> set (effects (emit destroy_event ?p))"
    by (simp add: emit_effects on_def newAdPlayer_def)
  from destroy_not_observed[of 7 ?p] reg have "effects (destroy ?p) = effects ?p"
    by blast
  with reg before would show ?thesis by simp
qed

lemma handleError_effects:
  "effects (handleError err p)
   = effects p
     @ (case tracker p of
          None \<Rightarrow> []
        | Some tr \<Rightarrow> map FirePixel (fireError (concat (map Ad.errors (ads p))) (code err) tr))
     @ map (\<lambda>l. Notify l (error_event err)) (listeners p)
     @ [OnError err]"
  by (simp add: handleError_def Let_def emit_def perform_def split: option.splits)

lemma handleError_status:
  "status (state (handleError err p)) = Error \<and> error (state (handleError err p)) = Some err"
  by (simp add: handleError_def Let_def emit_def perform_def split: option.splits)

lemma init_resolved:
  assumes ok: "parse (parser p0) f (vastUrl (config p0))
                 = \<lparr> success = True, response = Some r, error = None \<rparr>"
    and lin: "getFirstLinearCreative (VASTResponse.ads r) = Some l"
    and mf: "selectBestMediaFile (mediaFiles l) (targetBitrate (config p0)) = Some m"
  shows "init f outcome p0 = attemptAutoplay outcome (prepared p0 r m)"
proof -
  from lin have ne: "VASTResponse.ads r \<noteq> []" by auto
  show ?thesis
    using ok lin mf ne
    by (simp add: init_def Let_def updateStatus_def createVideoElement_def
          setupFocusManagement_def prepared_def)
qed


lemma firedPixels_comp: "firedPixels (map (FirePixel \<circ> g) xs) = map g xs"
  by (induction xs) auto

lemma trackerTrack_effects:
  assumes "tracker p = Some tr" and "trackingEvents tr = groupEventsByType events"
  shows "firedPixels (effects (trackerTrack e p))
         = firedPixels (effects p)
           @ map (\<lambda>u. \<lparr> origin = Tracking e, template = u, used_context = macroContext tr \<rparr>)
                 (unfired e (firedEvents tr) (registeredUrls events e))"
    and "tracker (trackerTrack e p)
         = Some (tr\<lparr> firedEvents := firedEvents tr \<union> eventKey e ` set (registeredUrls events e) \<rparr>)"
  using assms
  by (simp_all add: trackerTrack_def perform_def track_once[OF assms(2)] firedPixels_append
        firedPixels_FirePixel firedPixels_comp del: track_def)

lemma trackedUrls_other:
  "e \<noteq> e' \<Longrightarrow>
   trackedUrls e (map (\<lambda>u. \<lparr> origin = Tracking e', template = u, used_context = c \<rparr>) us) = []"
  by (induction us) (auto simp: trackedUrls_def)

lemma trackedUrls_same:
  "trackedUrls e (map (\<lambda>u. \<lparr> origin = Tracking e, template = u, used_context = c \<rparr>) us) = us"
  by (induction us) (auto simp: trackedUrls_def)

lemma trackedUrls_impressions:
  "trackedUrls e (fireImpressions us tr) = []"
  by (induction us) (auto simp: trackedUrls_def fireImpressions_def)

lemma trackedUrls_append: "trackedUrls e (xs @ ys) = trackedUrls e xs @ trackedUrls e ys"
  by (simp add: trackedUrls_def)

lemma setupSkipButton_effects: "effects (setupSkipButton p) = effects p"
  by (simp add: setupSkipButton_def split: option.splits)

lemma handlePlaybackStart_start_pixels:
  assumes tr: "tracker p = Some tr" and built: "trackingEvents tr = groupEventsByType events"
  shows "trackedUrls ''start'' (firedPixels (effects (handlePlaybackStart p)))
         = trackedUrls ''start'' (firedPixels (effects p))
           @ unfired ''start'' (firedEvents tr) (registeredUrls events ''start'')"
proof -
  let ?p1 = "perform (map FirePixel (fireImpressions (aggregateImpressions (ads p)) tr))
               (perform [OnStart] (emit start_event (updateStatus Playing p)))"
  have t1: "tracker ?p1 = Some tr"
    using tr by (simp add: perform_def emit_def updateStatus_def)
  have e1: "firedPixels (effects ?p1)
      = firedPixels (effects p) @ fireImpressions (aggregateImpressions (ads p)) tr"
    by (simp add: perform_def emit_def updateStatus_def firedPixels_append firedPixels_FirePixel
          firedPixels_Notify)
  let ?p2 = "trackerTrack ''start'' ?p1"
  note s = trackerTrack_effects[OF t1 built, of "''start''"]
  have built2: "trackingEvents (tr\<lparr> firedEvents := firedEvents tr
                   \<union> eventKey ''start'' ` set (registeredUrls events ''start'') \<rparr>)
      = groupEventsByType events"
    using built by simp
  note c = trackerTrack_effects[OF s(2) built2, of "''creativeView''"]
  have unfold: "handlePlaybackStart p = setupSkipButton (trackerTrack ''creativeView'' ?p2)"
    using tr
    by (simp add: handlePlaybackStart_def Let_def perform_def emit_def updateStatus_def
          del: trackerTrack_def)
  show ?thesis
    unfolding unfold setupSkipButton_effects c(1) s(1) e1
    by (simp add: trackedUrls_append trackedUrls_other trackedUrls_same trackedUrls_impressions)
qed

lemma overlay_already_off: "\<not> overlayElement p \<Longrightarrow> p\<lparr> overlayElement := False \<rparr> = p"
  by (cases p) simp

lemma handlePlaybackStart_status_irrelevant:
  "handlePlaybackStart (p\<lparr> state := (state p)\<lparr> status := s \<rparr> \<rparr>) = handlePlaybackStart p"
  by (simp add: handlePlaybackStart_def updateStatus_def)

lemma handlePlaybackStart_status: "status (state (handlePlaybackStart p)) = Playing"
  by (simp add: handlePlaybackStart_def Let_def updateStatus_def setupSkipButton_def
        trackerTrack_def perform_def emit_def split: option.splits)

lemma start_after_rejection:
  assumes video: "videoElement p \<noteq> None" and overlay: "\<not> overlayElement p"
  shows "onStartClick PlayAccepted (attemptAutoplay (PlayRejected why) p)
         = attemptAutoplay PlayAccepted p"
proof -
  from video obtain v where v: "videoElement p = Some v" by blast
  have "removeOverlay (showStartOverlay p)
        = (p\<lparr> overlayElement := False \<rparr>)\<lparr> state := (state p)\<lparr> status := WaitingForInteraction \<rparr> \<rparr>"
    by (simp add: removeOverlay_def showStartOverlay_def updateStatus_def)
  also have "\<dots> = p\<lparr> state := (state p)\<lparr> status := WaitingForInteraction \<rparr> \<rparr>"
    using overlay by (simp add: overlay_already_off)
  finally have r: "removeOverlay (showStartOverlay p)
      = p\<lparr> state := (state p)\<lparr> status := WaitingForInteraction \<rparr> \<rparr>" .
  show ?thesis
    using v by (simp add: onStartClick_def attemptAutoplay_def r Let_def
                  handlePlaybackStart_status_irrelevant)
qed


lemma count_start_once:
  assumes tr: "tracker p = Some tr" and built: "trackingEvents tr = groupEventsByType events"
    and fresh: "firedEvents tr = {}" and u: "u \<in> set (registeredUrls events ''start'')"
  shows "count_list (trackedUrls ''start'' (firedPixels (effects (handlePlaybackStart p)))) u
         = count_list (trackedUrls ''start'' (firedPixels (effects p))) u + 1"
  using u by (simp add: handlePlaybackStart_start_pixels[OF tr built] fresh count_unfired)

text \<open>
  C8. Let the document resolve and a media file be selected, and let the host reject the
  autoplay attempt. Then \<open>init\<close> leaves the player waiting for interaction, not in error,
  and has fired and called nothing. When the start is then clicked and the host accepts,
  the player is exactly where an accepted autoplay would have left it, it is playing, and
  each URL registered for \<open>start\<close> has been fired once more than before \<open>init\<close>.
\<close>

theorem rejected_autoplay_then_start:
  assumes ok: "parse (parser p0) f (vastUrl (config p0))
                 = \<lparr> success = True, response = Some r, error = None \<rparr>"
    and lin: "getFirstLinearCreative (VASTResponse.ads r) = Some l"
    and mf: "selectBestMediaFile (mediaFiles l) (targetBitrate (config p0)) = Some m"
    and overlay: "\<not> overlayElement p0"
  shows "status (state (init f (PlayRejected why) p0)) = WaitingForInteraction
       \<and> status (state (init f (PlayRejected why) p0)) \<noteq> Error
       \<and> error (state (init f (PlayRejected why) p0)) = error (state p0)
       \<and> effects (init f (PlayRejected why) p0) = effects p0
       \<and> onStartClick PlayAccepted (init f (PlayRejected why) p0) = init f PlayAccepted p0
       \<and> status (state (onStartClick PlayAccepted (init f (PlayRejected why) p0))) = Playing
       \<and> (\<forall>u \<in> set (registeredUrls (aggregateTrackingEvents (VASTResponse.ads r)) ''start'').
            count_list (trackedUrls ''start''
                          (firedPixels (effects (onStartClick PlayAccepted
                                                   (init f (PlayRejected why) p0))))) u
            = count_list (trackedUrls ''start'' (firedPixels (effects p0))) u + 1)"
proof -
  let ?p = "prepared p0 r m"
  let ?tr = "updateMacroContext (emptyContext\<lparr> assetUri := Some (MediaFile.url m) \<rparr>)
               (newAdTracker (aggregateTrackingEvents (VASTResponse.ads r)))"
  note i = init_resolved[OF ok lin mf]
  have video: "videoElement ?p \<noteq> None" and ov: "\<not> overlayElement ?p"
    and tr: "tracker ?p = Some ?tr" and eff: "effects ?p = effects p0"
    using overlay by (simp_all add: prepared_def)
  have built: "trackingEvents ?tr = groupEventsByType (aggregateTrackingEvents (VASTResponse.ads r))"
    and fresh: "firedEvents ?tr = {}"
    by (simp_all add: updateMacroContext_def newAdTracker_def)
  have rej: "init f (PlayRejected why) p0 = showStartOverlay ?p"
    using video by (auto simp: i attemptAutoplay_def)
  have acc: "init f PlayAccepted p0 = handlePlaybackStart ?p"
    using video by (auto simp: i attemptAutoplay_def)
  have same: "onStartClick PlayAccepted (init f (PlayRejected why) p0) = init f PlayAccepted p0"
    unfolding i by (rule start_after_rejection[OF video ov])
  have waiting: "status (state (init f (PlayRejected why) p0)) = WaitingForInteraction"
    and err: "error (state (init f (PlayRejected why) p0)) = error (state p0)"
    and quiet: "effects (init f (PlayRejected why) p0) = effects p0"
    unfolding rej by (simp_all add: showStartOverlay_def updateStatus_def prepared_def)
  have playing: "status (state (onStartClick PlayAccepted (init f (PlayRejected why) p0))) = Playing"
    unfolding same acc by (rule handlePlaybackStart_status)
  have once: "count_list (trackedUrls ''start''
                          (firedPixels (effects (onStartClick PlayAccepted
                                                   (init f (PlayRejected why) p0))))) u
            = count_list (trackedUrls ''start'' (firedPixels (effects p0))) u + 1"
    if "u \<in> set (registeredUrls (aggregateTrackingEvents (VASTResponse.ads r)) ''start'')" for u
    unfolding same acc using count_start_once[OF tr built fresh that] eff by simp
  from waiting err quiet same playing once show ?thesis by simp
qed

lemma simple_linear:
  "getFirstLinearCreative (VASTResponse.ads SIMPLE_VAST) = Some SIMPLE_LINEAR"
  by (simp add: SIMPLE_VAST_def SIMPLE_AD_def)

lemma simple_parse:
  "parse (parser (newAdPlayer (defaultConfig ''https://example.com/vast.xml''))) inlineTransport
     (vastUrl (config (newAdPlayer (defaultConfig ''https://example.com/vast.xml''))))
   = \<lparr> success = True, response = Some SIMPLE_VAST, error = None \<rparr>"
proof -
  have plain: "list_all (\<lambda>ad. \<not> hasAdTagURI ad) (VASTResponse.ads SIMPLE_VAST)"
    by (simp add: SIMPLE_VAST_def SIMPLE_AD_def hasAdTagURI_def)
  have "concat (map (\<lambda>a. [a]) (VASTResponse.ads SIMPLE_VAST)) = VASTResponse.ads SIMPLE_VAST"
    by (simp add: SIMPLE_VAST_def)
  then show ?thesis
    by (simp add: parse_def newAdPlayer_def defaultConfig_def inlineTransport_def
          fetchWithTimeout_def parseXml_def resolveAds_plain[OF plain])
qed

lemma simple_media:
  "selectBestMediaFile (mediaFiles SIMPLE_LINEAR) 2500 = Some SIMPLE_MEDIA_FILE"
  by (simp add: selectBestMediaFile_def candidates_def Let_def SIMPLE_LINEAR_def)

theorem rejected_autoplay_then_start_witness:
  "parse (parser (newAdPlayer (defaultConfig ''https://example.com/vast.xml''))) inlineTransport
     (vastUrl (config (newAdPlayer (defaultConfig ''https://example.com/vast.xml''))))
     = \<lparr> success = True, response = Some SIMPLE_VAST, error = None \<rparr>
   \<and> \<not> overlayElement (newAdPlayer (defaultConfig ''https://example.com/vast.xml''))
   \<and> status (state (init inlineTransport (PlayRejected ''NotAllowedError'')
                       (newAdPlayer (defaultConfig ''https://example.com/vast.xml''))))
     = WaitingForInteraction
   \<and> effects (init inlineTransport (PlayRejected ''NotAllowedError'')
                (newAdPlayer (defaultConfig ''https://example.com/vast.xml''))) = []
   \<and> count_list
       (trackedUrls ''start''
          (firedPixels (effects
             (onStartClick PlayAccepted
                (init inlineTransport (PlayRejected ''NotAllowedError'')
                   (newAdPlayer (defaultConfig ''https://example.com/vast.xml'')))))))
       ''https://example.com/start'' = 1"
proof -
  let ?p0 = "newAdPlayer (defaultConfig ''https://example.com/vast.xml'')"
  have tb: "targetBitrate (config ?p0) = 2500"
    by (simp add: newAdPlayer_def defaultConfig_def)
  have ov: "\<not> overlayElement ?p0" and e0: "effects ?p0 = []"
    by (simp_all add: newAdPlayer_def)
  have reg: "''https://example.com/start''
      \<in> set (registeredUrls (aggregateTrackingEvents (VASTResponse.ads SIMPLE_VAST)) ''start'')"
    by (simp add: registeredUrls_def aggregateTrackingEvents_def SIMPLE_VAST_def SIMPLE_AD_def SIMPLE_LINEAR_def)
  from simple_media tb have media:
    "selectBestMediaFile (mediaFiles SIMPLE_LINEAR) (targetBitrate (config ?p0)) = Some SIMPLE_MEDIA_FILE"
    by simp
  note t = rejected_autoplay_then_start[OF simple_parse simple_linear media ov,
      of "''NotAllowedError''"]
  from t have waiting:
    "status (state (init inlineTransport (PlayRejected ''NotAllowedError'') ?p0))
       = WaitingForInteraction"
    and quiet: "effects (init inlineTransport (PlayRejected ''NotAllowedError'') ?p0) = effects ?p0"
    and each: "\<forall>u \<in> set (registeredUrls (aggregateTrackingEvents (VASTResponse.ads SIMPLE_VAST)) ''start'').
         count_list
           (trackedUrls ''start''
              (firedPixels (effects
                 (onStartClick PlayAccepted
                    (init inlineTransport (PlayRejected ''NotAllowedError'') ?p0))))) u
         = count_list (trackedUrls ''start'' (firedPixels (effects ?p0))) u + 1"
    by blast+
  from each reg have "count_list
       (trackedUrls ''start''
          (firedPixels (effects
             (onStartClick PlayAccepted
                (init inlineTransport (PlayRejected ''NotAllowedError'') ?p0)))))
       ''https://example.com/start''
     = count_list (trackedUrls ''start'' (firedPixels (effects ?p0))) ''https://example.com/start'' + 1"
    by blast
  then have one: "count_list
       (trackedUrls ''start''
          (firedPixels (effects
             (onStartClick PlayAccepted
                (init inlineTransport (PlayRejected ''NotAllowedError'') ?p0)))))
       ''https://example.com/start'' = 1"
    by (simp add: e0 trackedUrls_def)
  from quiet e0 have silent:
    "effects (init inlineTransport (PlayRejected ''NotAllowedError'') ?p0) = []"
    by simp
  note waiting silent one
  with simple_parse ov show ?thesis by blast
qed

text \<open>
  The errors that end \<open>init\<close> are handled before the tracker exists
  (\<open>this.tracker?.fireError\<close> with \<open>tracker\<close> still \<open>null\<close>): whenever \<open>init\<close> of a
  player without a tracker ends in the error state, it has fired no pixel at all.
\<close>

lemma init_failure_status:
  assumes "tracker p0 = None"
    and "status (state (init f outcome p0)) = Error"
  shows "firedPixels (effects (init f outcome p0)) = firedPixels (effects p0)"
proof -
  have he: "firedPixels (effects (handleError err p)) = firedPixels (effects p)"
    if "tracker p = None" for err p
    using that by (simp add: handleError_effects firedPixels_append firedPixels_Notify)
  have waiting: "status (state (showStartOverlay p)) \<noteq> Error" for p
    by (simp add: showStartOverlay_def updateStatus_def)
  have playing: "status (state (handlePlaybackStart p)) \<noteq> Error" for p
    by (simp add: handlePlaybackStart_status)
  show ?thesis
    using assms waiting playing
    by (auto simp: init_def Let_def he updateStatus_def attemptAutoplay_def
          createVideoElement_def setupFocusManagement_def
          split: option.splits if_splits play_outcome.splits)
qed

text \<open>
  An error handled once the tracker exists does fire the error pixels, with the error code
  in their macro context, for every error URL of every ad, then notifies the listeners,
  then calls the error callback.
\<close>

lemma late_error_fires_pixels:
  assumes "tracker p = Some tr"
  shows "effects (onVideoError m p)
   = effects p
     @ map FirePixel
         (map (\<lambda>u. \<lparr> origin = ErrorPixel, template = u,
                      used_context = (macroContext tr)\<lparr> errorCode := Some 403 \<rparr> \<rparr>)
              (concat (map Ad.errors (ads p))))
     @ map (\<lambda>l. Notify l (error_event
                (createError 403 (if m = [] then ''Video playback error'' else m)))) (listeners p)
     @ [OnError (createError 403 (if m = [] then ''Video playback error'' else m))]"
  using assms by (simp add: onVideoError_def handleError_effects fireError_def createError_def)

text \<open>
  The URL that goes out for such a pixel carries the error code (the tracker's own test:
  \<open>fireError\<close> with code 402).
\<close>

lemma fireError_pixel_url_example:
  "map (pixel_url \<lparr> now = 1768305600000, cachebuster = ''k3x9'' \<rparr>)
       (fireError [''https://example.com/error?code=[ERRORCODE]''] 402 (newAdTracker []))
   = [''https://example.com/error?code=402'']"
  by (simp add: fireError_def pixel_url_def newAdTracker_def replaceMacros_def replaceAll_def
        emptyContext_def int_toString_def digit_char_def)

text \<open>
  C5. The claim fails on the code for the errors of document resolution. For a document
  whose only ad carries an error URL and no linear creative, \<open>init\<close> ends in the error
  state and calls the error callback with code 400, and the ad's error URL is among the
  player's ads, but no error pixel is fired before the callback: the only effect is the
  callback.
\<close>

theorem init_without_linear_fires_no_error_pixel:
  "effects (init noLinearTransport PlayAccepted
              (newAdPlayer (defaultConfig ''https://example.com/vast.xml'')))
     = [OnError \<lparr> code = 400, message = ''No linear creative found'', recoverable = False \<rparr>]
   \<and> status (state (init noLinearTransport PlayAccepted
                       (newAdPlayer (defaultConfig ''https://example.com/vast.xml'')))) = Error
   \<and> concat (map Ad.errors
               (ads (init noLinearTransport PlayAccepted
                       (newAdPlayer (defaultConfig ''https://example.com/vast.xml'')))))
     = [''https://example.com/error?code=[ERRORCODE]'']"
proof -
  have nowrap: "\<not> hasAdTagURI NO_LINEAR_AD"
    by (simp add: NO_LINEAR_AD_def SIMPLE_AD_def hasAdTagURI_def)
  have parsed: "parse (parser (newAdPlayer (defaultConfig ''https://example.com/vast.xml'')))
      noLinearTransport ''https://example.com/vast.xml''
      = \<lparr> success = True,
          response = Some \<lparr> version = ''4.0'', ads = [NO_LINEAR_AD], errors = [] \<rparr>,
          error = None \<rparr>"
    by (simp add: parse_def newAdPlayer_def defaultConfig_def noLinearTransport_def
          fetchWithTimeout_def parseXml_def nowrap)
  let ?p0 = "newAdPlayer (defaultConfig ''https://example.com/vast.xml'')"
  have url: "vastUrl (config ?p0) = ''https://example.com/vast.xml''"
    by (simp add: newAdPlayer_def defaultConfig_def)
  have start: "tracker ?p0 = None" "listeners ?p0 = []" "effects ?p0 = []"
    by (simp_all add: newAdPlayer_def)
  have nolin: "Ad.creatives NO_LINEAR_AD = []"
    by (simp add: NO_LINEAR_AD_def)
  have errs: "Ad.errors NO_LINEAR_AD = [''https://example.com/error?code=[ERRORCODE]'']"
    by (simp add: NO_LINEAR_AD_def)
  show ?thesis
    by (simp add: init_def Let_def url parsed nolin errs start updateStatus_def handleError_def
          emit_def perform_def createError_def)
qed

end
